theory Spec2Isabelle
  imports Complex_Main "HOL-Library.Char_ord" "HOL-Library.List_Lexorder"
    "HOL-Library.AList" "HOL-Library.Log_Nat"
begin

section \<open>Python values, exceptions and text\<close>

text \<open>
  The program keeps its three tables in CSV files and works on \<^verbatim>\<open>list(csv.reader(file))\<close>:
  a list of rows, each row a list of strings, the first row being the header. A table is
  modelled as that list. A character is a code point in the range U+0000 to U+00FF; the
  order on strings is Python's (lexicographic by code point, a proper prefix is smaller).

  An exception is a value: every function that can raise returns \<open>py_error + 'a\<close>, and
  \<open>Inl\<close> carries the exception.
\<close>

datatype py_error = IndexError | ValueError | OverflowError | KeyError

datatype py_value = PyNone | PyInt int

type_synonym row = "string list"

type_synonym table = "row list"

definition and_then :: "py_error + 'a \<Rightarrow> ('a \<Rightarrow> py_error + 'b) \<Rightarrow> py_error + 'b" where
  "and_then m f = (case m of Inl e \<Rightarrow> Inl e | Inr x \<Rightarrow> f x)"

text \<open>\<^verbatim>\<open>xs[k]\<close> for a constant index \<open>k \<ge> 0\<close>: IndexError when out of range.\<close>

definition item :: "'a list \<Rightarrow> nat \<Rightarrow> py_error + 'a" where
  "item xs k = (if k < length xs then Inr (xs ! k) else Inl IndexError)"

text \<open>\<^verbatim>\<open>xs[k] = v\<close>: IndexError when out of range (a Python list never grows by assignment).\<close>

definition set_item :: "'a list \<Rightarrow> nat \<Rightarrow> 'a \<Rightarrow> py_error + 'a list" where
  "set_item xs k v = (if k < length xs then Inr (xs[k := v]) else Inl IndexError)"

subsection \<open>\<^verbatim>\<open>str(n)\<close> and \<^verbatim>\<open>int(s)\<close>\<close>

definition digit_char :: "nat \<Rightarrow> char" where
  "digit_char d = ''0123456789'' ! d"

fun str_nat :: "nat \<Rightarrow> string" where
  "str_nat n = (if n < 10 then [digit_char n] else str_nat (n div 10) @ [digit_char (n mod 10)])"

declare str_nat.simps [simp del]

definition py_str :: "int \<Rightarrow> string" where
  "py_str i = (if i < 0 then CHR ''-'' # str_nat (nat (- i)) else str_nat (nat i))"

definition is_decimal :: "char \<Rightarrow> bool" where
  "is_decimal c = (CHR ''0'' \<le> c \<and> c \<le> CHR ''9'')"

definition digit_val :: "char \<Rightarrow> nat" where
  "digit_val c = of_char c - 48"

text \<open>
  \<^verbatim>\<open>str.isdigit()\<close>: the string is not empty and every character has the Unicode property
  Numeric_Type Decimal or Digit. Up to U+00FF these are the ten ASCII digits and the
  superscripts U+00B2, U+00B3 and U+00B9.
\<close>

definition isdigit_char :: "char \<Rightarrow> bool" where
  "isdigit_char c = (is_decimal c \<or> c = CHR 0xB2 \<or> c = CHR 0xB3 \<or> c = CHR 0xB9)"

definition isdigit :: "string \<Rightarrow> bool" where
  "isdigit s = (s \<noteq> [] \<and> list_all isdigit_char s)"

text \<open>
  The characters \<^verbatim>\<open>int()\<close> skips at both ends of its argument: the ASCII white space
  (tab, line feed, vertical tab, form feed, carriage return, space), and U+0085 and
  U+00A0, which it turns into spaces first. \<^verbatim>\<open>str.strip()\<close> removes those and the four
  separators U+001C to U+001F.
\<close>

definition int_space :: "char \<Rightarrow> bool" where
  "int_space c = (c \<in> set [CHR 0x09, CHR 0x0A, CHR 0x0B, CHR 0x0C, CHR 0x0D, CHR 0x20,
                            CHR 0x85, CHR 0xA0])"

definition isspace :: "char \<Rightarrow> bool" where
  "isspace c = (int_space c \<or> c \<in> set [CHR 0x1C, CHR 0x1D, CHR 0x1E, CHR 0x1F])"

definition strip_with :: "(char \<Rightarrow> bool) \<Rightarrow> string \<Rightarrow> string" where
  "strip_with sp s = rev (dropWhile sp (rev (dropWhile sp s)))"

definition strip :: "string \<Rightarrow> string" where
  "strip s = strip_with isspace s"

text \<open>
  The digits of a base 10 literal: decimal digits, where a single underscore may stand
  between two digits. The accumulator is the value read so far.
\<close>

fun int_digits :: "nat \<Rightarrow> string \<Rightarrow> nat option" where
  "int_digits acc [] = Some acc"
| "int_digits acc (c # cs) =
     (if is_decimal c then int_digits (acc * 10 + digit_val c) cs
      else if c = CHR ''_'' then
        (case cs of
           [] \<Rightarrow> None
         | d # ds \<Rightarrow> if is_decimal d then int_digits (acc * 10 + digit_val d) ds else None)
      else None)"

definition int_unsigned :: "string \<Rightarrow> nat option" where
  "int_unsigned s =
     (case s of
        [] \<Rightarrow> None
      | c # cs \<Rightarrow> if is_decimal c then int_digits (digit_val c) cs else None)"

definition py_int :: "string \<Rightarrow> py_error + int" where
  "py_int s =
     (let t = strip_with int_space s;
          r = (case t of
                 [] \<Rightarrow> None
               | c # cs \<Rightarrow>
                   if c = CHR ''-'' then map_option (\<lambda>n. - int n) (int_unsigned cs)
                   else if c = CHR ''+'' then map_option int (int_unsigned cs)
                   else map_option int (int_unsigned t))
      in case r of None \<Rightarrow> Inl ValueError | Some i \<Rightarrow> Inr i)"

text \<open>\<^verbatim>\<open>s.split(sep)\<close> for a separator of one character.\<close>

fun split_on :: "char \<Rightarrow> string \<Rightarrow> string list" where
  "split_on sep [] = [[]]"
| "split_on sep (c # cs) =
     (if c = sep then [] # split_on sep cs
      else (case split_on sep cs of
              [] \<Rightarrow> [[c]]
            | p # ps \<Rightarrow> (c # p) # ps))"

text \<open>\<^verbatim>\<open>max(xs)\<close> of a non-empty list.\<close>

definition py_max :: "int list \<Rightarrow> int" where
  "py_max xs = fold max (tl xs) (hd xs)"

section \<open>The state of the system\<close>

text \<open>
  \<^verbatim>\<open>tasks.csv\<close>, \<^verbatim>\<open>schedule.csv\<close> and \<^verbatim>\<open>progress.csv\<close> as tables, and the lines
  printed so far. The columns of a task row are task_id (0), title (1), description (2),
  category (3), priority (4), status (5), created_date (6), due_date (7),
  rollover_count (8) and time_block (9).
\<close>

record pa_state =
  tasks_csv :: table
  schedule_csv :: table
  progress_csv :: table
  stdout :: "string list"

definition print :: "string \<Rightarrow> pa_state \<Rightarrow> pa_state" where
  "print line s = s\<lparr>stdout := stdout s @ [line]\<rparr>"

section \<open>\<^verbatim>\<open>PersonalPASystem.add_task\<close>\<close>

text \<open>
  The list comprehension \<^verbatim>\<open>[int(row[0]) for row in rows[1:] if row[0].isdigit()]\<close>, row by
  row: \<^verbatim>\<open>row[0]\<close> raises on a row with no field, \<^verbatim>\<open>int\<close> raises on what it cannot read.
\<close>

fun collect_task_ids :: "table \<Rightarrow> py_error + int list" where
  "collect_task_ids [] = Inr []"
| "collect_task_ids (row # rest) =
     (case item row 0 of
        Inl e \<Rightarrow> Inl e
      | Inr v \<Rightarrow>
          if isdigit v then
            (case py_int v of
               Inl e \<Rightarrow> Inl e
             | Inr n \<Rightarrow>
                 (case collect_task_ids rest of
                    Inl e \<Rightarrow> Inl e
                  | Inr ns \<Rightarrow> Inr (n # ns)))
          else collect_task_ids rest)"

definition next_task_id :: "table \<Rightarrow> py_error + int" where
  "next_task_id rows =
     (if length rows > 1 then
        (case collect_task_ids (tl rows) of
           Inl e \<Rightarrow> Inl e
         | Inr task_ids \<Rightarrow> Inr (if task_ids \<noteq> [] then py_max task_ids + 1 else 1))
      else Inr 1)"

text \<open>
  \<open>today\<close> is \<^verbatim>\<open>datetime.now().strftime('%Y-%m-%d')\<close>. The writer turns the numbers of the
  new row into text with \<^verbatim>\<open>str\<close>. Nothing is written or printed when reading the ids
  raises.
\<close>

definition add_task ::
  "string \<Rightarrow> string \<Rightarrow> string \<Rightarrow> string \<Rightarrow> int \<Rightarrow> string \<Rightarrow> string \<Rightarrow> pa_state
     \<Rightarrow> pa_state \<times> (py_error + py_value)" where
  "add_task today title description category priority due_date time_block s =
     (case next_task_id (tasks_csv s) of
        Inl e \<Rightarrow> (s, Inl e)
      | Inr next_id \<Rightarrow>
          (print (''Task '' @ [CHR 0x27] @ title @ [CHR 0x27] @ '' added successfully with ID ''
                    @ py_str next_id)
             (s\<lparr>tasks_csv := tasks_csv s @
                   [[py_str next_id, title, description, category, py_str priority,
                     ''pending'', today, due_date, ''0'', time_block]]\<rparr>),
           Inr PyNone))"

section \<open>\<^verbatim>\<open>PersonalPASystem.update_task_status\<close>\<close>

text \<open>
  The loop over \<^verbatim>\<open>rows[1:]\<close>, which stops at the first row whose first field is the
  wanted id. The result is the rows as the loop leaves them and the flag \<^verbatim>\<open>updated\<close>.
\<close>

definition set_status :: "string \<Rightarrow> row \<Rightarrow> py_error + row" where
  "set_status new_status row =
     (case set_item row 5 new_status of
        Inl e \<Rightarrow> Inl e
      | Inr row1 \<Rightarrow>
          if new_status = ''completed'' then set_item row1 8 ''0'' else Inr row1)"

fun update_loop :: "string \<Rightarrow> string \<Rightarrow> table \<Rightarrow> py_error + (table \<times> bool)" where
  "update_loop tid new_status [] = Inr ([], False)"
| "update_loop tid new_status (row # rest) =
     (case item row 0 of
        Inl e \<Rightarrow> Inl e
      | Inr v \<Rightarrow>
          if v = tid then
            (case set_status new_status row of
               Inl e \<Rightarrow> Inl e
             | Inr row' \<Rightarrow> Inr (row' # rest, True))
          else
            (case update_loop tid new_status rest of
               Inl e \<Rightarrow> Inl e
             | Inr (rest', updated) \<Rightarrow> Inr (row # rest', updated)))"

definition update_task_status ::
  "int \<Rightarrow> string \<Rightarrow> pa_state \<Rightarrow> pa_state \<times> (py_error + py_value)" where
  "update_task_status task_id new_status s =
     (let rows = tasks_csv s in
      case update_loop (py_str task_id) new_status (tl rows) of
        Inl e \<Rightarrow> (s, Inl e)
      | Inr (data, updated) \<Rightarrow>
          if \<not> updated then
            (print (''Task with ID '' @ py_str task_id @ '' not found.'') s, Inr PyNone)
          else
            (print (''Task '' @ py_str task_id @ '' status updated to '' @ [CHR 0x27]
                      @ new_status @ [CHR 0x27])
               (s\<lparr>tasks_csv := take 1 rows @ data\<rparr>),
             Inr PyNone))"

section \<open>Dates: \<^verbatim>\<open>strptime\<close>, \<^verbatim>\<open>timedelta(days=1)\<close>, \<^verbatim>\<open>strftime\<close>\<close>

text \<open>
  The program reads a due date with \<^verbatim>\<open>datetime.strptime(s, '%Y-%m-%d')\<close>, adds
  \<^verbatim>\<open>timedelta(days=1)\<close> and writes the sum with \<^verbatim>\<open>strftime('%Y-%m-%d')\<close>. The time of day is
  midnight throughout and is never printed, so a \<^verbatim>\<open>datetime\<close> is modelled by its date.
\<close>

record date =
  year :: nat
  month :: nat
  day :: nat

definition is_leap :: "nat \<Rightarrow> bool" where
  "is_leap y = (y mod 4 = 0 \<and> (y mod 100 \<noteq> 0 \<or> y mod 400 = 0))"

definition days_in_month :: "nat \<Rightarrow> nat \<Rightarrow> nat" where
  "days_in_month y m =
     (if m = 2 then (if is_leap y then 29 else 28)
      else if m = 4 \<or> m = 6 \<or> m = 9 \<or> m = 11 then 30 else 31)"

text \<open>The dates a \<^verbatim>\<open>datetime\<close> can hold: years 1 to 9999.\<close>

definition valid_date :: "date \<Rightarrow> bool" where
  "valid_date d =
     (1 \<le> year d \<and> year d \<le> 9999 \<and> 1 \<le> month d \<and> month d \<le> 12 \<and>
      1 \<le> day d \<and> day d \<le> days_in_month (year d) (month d))"

text \<open>
  \<^verbatim>\<open>strptime\<close> matches the text against the regular expression
  \<^verbatim>\<open>(\d\d\d\d)-(1[0-2]|0[1-9]|[1-9])-(3[0-1]|[1-2]\d|0[1-9]|[1-9]| [1-9])\<close>
  and refuses text that goes on after the match. Each function below reads one group
  and returns its value and the rest of the text. The alternatives of a group are tried
  in the order written; where an earlier alternative matches and the text after it does
  not fit, the later ones do not fit either, so no backtracking is modelled.
\<close>

definition nonzero_digit :: "char \<Rightarrow> bool" where
  "nonzero_digit c = (CHR ''1'' \<le> c \<and> c \<le> CHR ''9'')"

fun parse_year :: "string \<Rightarrow> (nat \<times> string) option" where
  "parse_year (a # b # c # d # rest) =
     (if is_decimal a \<and> is_decimal b \<and> is_decimal c \<and> is_decimal d
      then Some (1000 * digit_val a + 100 * digit_val b + 10 * digit_val c + digit_val d, rest)
      else None)"
| "parse_year _ = None"

fun parse_month :: "string \<Rightarrow> (nat \<times> string) option" where
  "parse_month (a # b # rest) =
     (if a = CHR ''1'' \<and> CHR ''0'' \<le> b \<and> b \<le> CHR ''2'' then Some (10 + digit_val b, rest)
      else if a = CHR ''0'' \<and> nonzero_digit b then Some (digit_val b, rest)
      else if nonzero_digit a then Some (digit_val a, b # rest)
      else None)"
| "parse_month [a] = (if nonzero_digit a then Some (digit_val a, []) else None)"
| "parse_month [] = None"

fun parse_day :: "string \<Rightarrow> (nat \<times> string) option" where
  "parse_day (a # b # rest) =
     (if a = CHR ''3'' \<and> CHR ''0'' \<le> b \<and> b \<le> CHR ''1'' then Some (30 + digit_val b, rest)
      else if CHR ''1'' \<le> a \<and> a \<le> CHR ''2'' \<and> is_decimal b
        then Some (10 * digit_val a + digit_val b, rest)
      else if a = CHR ''0'' \<and> nonzero_digit b then Some (digit_val b, rest)
      else if nonzero_digit a then Some (digit_val a, b # rest)
      else if a = CHR '' '' \<and> nonzero_digit b then Some (digit_val b, rest)
      else None)"
| "parse_day [a] = (if nonzero_digit a then Some (digit_val a, []) else None)"
| "parse_day [] = None"

fun expect :: "char \<Rightarrow> string \<Rightarrow> string option" where
  "expect ch (c # cs) = (if c = ch then Some cs else None)"
| "expect ch [] = None"

definition strptime :: "string \<Rightarrow> py_error + date" where
  "strptime s =
     (case parse_year s of
        None \<Rightarrow> Inl ValueError
      | Some (y, r1) \<Rightarrow>
     (case expect CHR ''-'' r1 of
        None \<Rightarrow> Inl ValueError
      | Some r2 \<Rightarrow>
     (case parse_month r2 of
        None \<Rightarrow> Inl ValueError
      | Some (m, r3) \<Rightarrow>
     (case expect CHR ''-'' r3 of
        None \<Rightarrow> Inl ValueError
      | Some r4 \<Rightarrow>
     (case parse_day r4 of
        None \<Rightarrow> Inl ValueError
      | Some (d, r5) \<Rightarrow>
          if r5 \<noteq> [] then Inl ValueError
          else if valid_date \<lparr>year = y, month = m, day = d\<rparr>
            then Inr \<lparr>year = y, month = m, day = d\<rparr>
          else Inl ValueError)))))"

text \<open>
  \<^verbatim>\<open>%m\<close> and \<^verbatim>\<open>%d\<close> print two digits. \<^verbatim>\<open>%Y\<close> prints the year in four digits from the
  year 1000 on; below, the C library decides, and the model follows glibc, which
  prints the year without leading zeros.
\<close>

definition pad2 :: "nat \<Rightarrow> string" where
  "pad2 n = [digit_char (n div 10), digit_char (n mod 10)]"

definition strftime :: "date \<Rightarrow> string" where
  "strftime d = str_nat (year d) @ ''-'' @ pad2 (month d) @ ''-'' @ pad2 (day d)"

definition next_day :: "date \<Rightarrow> date" where
  "next_day d =
     (if day d < days_in_month (year d) (month d) then d\<lparr>day := day d + 1\<rparr>
      else if month d < 12 then d\<lparr>month := month d + 1, day := 1\<rparr>
      else \<lparr>year = year d + 1, month = 1, day = 1\<rparr>)"

text \<open>\<^verbatim>\<open>d + timedelta(days=1)\<close>: OverflowError past the last day of the year 9999.\<close>

definition add_one_day :: "date \<Rightarrow> py_error + date" where
  "add_one_day d =
     (if year d = 9999 \<and> month d = 12 \<and> day d = 31 then Inl OverflowError
      else Inr (next_day d))"

text \<open>
  \<^verbatim>\<open>date.toordinal()\<close>, the number of the day counted from 0001-01-01 as day 1, as the
  standard library computes it. The program does not call it; the theorems use it to say
  what one day later means.
\<close>

definition days_before_year :: "nat \<Rightarrow> int" where
  "days_before_year y =
     (let z = int y - 1 in z * 365 + z div 4 - z div 100 + z div 400)"

definition days_before_month :: "nat \<Rightarrow> nat \<Rightarrow> int" where
  "days_before_month y m =
     int ([0, 0, 31, 59, 90, 120, 151, 181, 212, 243, 273, 304, 334] ! m)
       + (if m > 2 \<and> is_leap y then 1 else 0)"

definition toordinal :: "date \<Rightarrow> int" where
  "toordinal d = days_before_year (year d) + days_before_month (year d) (month d) + int (day d)"

section \<open>Floating point: \<^verbatim>\<open>completed / total * 100\<close> and \<^verbatim>\<open>round(x, 2)\<close>\<close>

text \<open>
  A Python float is an IEEE 754 double. A double is modelled by the rational it denotes,
  and an operation by the exact result rounded to the nearest double, ties to the even
  significand (53 bits). The exponent range is not modelled. The values met here are
  quotients of counts and a hundred times such a quotient: they never overflow, and a
  quotient too small for a normal double ends as \<^verbatim>\<open>0.0\<close> after \<^verbatim>\<open>round(x, 2)\<close> in the
  program and in the model alike.
\<close>

definition round_half_even :: "rat \<Rightarrow> int" where
  "round_half_even x =
     (let f = \<lfloor>x\<rfloor>; d = x - of_int f
      in if d < 1 / 2 then f else if 1 / 2 < d then f + 1 else if even f then f else f + 1)"

text \<open>The exponent \<open>e\<close> of a rational \<open>x \<noteq> 0\<close>: \<open>2\<^sup>e \<le> |x| < 2\<^sup>e\<^sup>+\<^sup>1\<close>.\<close>

definition float_exponent :: "rat \<Rightarrow> int" where
  "float_exponent x =
     (let (a, b) = quotient_of \<bar>x\<bar>; e = bitlen a - bitlen b
      in if 2 powi e \<le> \<bar>x\<bar> then e else e - 1)"

definition to_double :: "rat \<Rightarrow> rat" where
  "to_double x =
     (if x = 0 then 0
      else let u = 2 powi (float_exponent x - 52) in of_int (round_half_even (x / u)) * u)"

text \<open>\<^verbatim>\<open>a / b\<close> on integers is the correctly rounded quotient; \<^verbatim>\<open>x * y\<close> on floats the rounded product.\<close>

definition int_truediv :: "int \<Rightarrow> int \<Rightarrow> rat" where
  "int_truediv a b = to_double (of_int a / of_int b)"

definition float_mul :: "rat \<Rightarrow> rat \<Rightarrow> rat" where
  "float_mul x y = to_double (x * y)"

text \<open>
  \<^verbatim>\<open>round(x, 2)\<close> of a float rounds the exact value of \<open>x\<close> to the nearest multiple of
  \<open>1/100\<close>, ties to even, and returns the double nearest to it. \<open>round2_hundredths\<close> is that
  multiple, counted in hundredths; \<^verbatim>\<open>repr\<close> of the double prints exactly this decimal.
\<close>

definition round2_hundredths :: "rat \<Rightarrow> int" where
  "round2_hundredths x = round_half_even (x * 100)"

text \<open>
  The score as the program computes it,
  \<^verbatim>\<open>round((completed / total * 100) if total > 0 else 0, 2)\<close>, in hundredths. With
  \<open>total \<le> 0\<close> the result is the integer 0.
\<close>

definition score_hundredths :: "int \<Rightarrow> int \<Rightarrow> int" where
  "score_hundredths completed pending =
     (let total = completed + pending
      in if total > 0 then round2_hundredths (float_mul (int_truediv completed total) 100)
         else 0)"

definition productivity_score :: "int \<Rightarrow> int \<Rightarrow> rat" where
  "productivity_score completed pending = of_int (score_hundredths completed pending) / 100"

text \<open>
  The text the writer puts in the log: \<^verbatim>\<open>str\<close> of the integer 0, or \<^verbatim>\<open>repr\<close> of the float,
  which prints the digits before the point, the point, and one or two digits after it.
  This is the program's text for counts that are not negative, which are the only ones
  \<^verbatim>\<open>COUNT\<close> returns.
\<close>

definition repr_hundredths :: "int \<Rightarrow> string" where
  "repr_hundredths k =
     (let a = nat \<bar>k\<bar>; f = a mod 100
      in (if k < 0 then ''-'' else [])
         @ str_nat (a div 100) @ ''.''
         @ (if f mod 10 = 0 then [digit_char (f div 10)]
            else [digit_char (f div 10), digit_char (f mod 10)]))"

definition score_text :: "int \<Rightarrow> int \<Rightarrow> string" where
  "score_text completed pending =
     (if completed + pending > 0 then repr_hundredths (score_hundredths completed pending)
      else ''0'')"

section \<open>\<^verbatim>\<open>PersonalPASystem._update_progress_log\<close>\<close>

text \<open>
  \<^verbatim>\<open>csv_tools.query_csv_file(name, sql)\<close> belongs to the agent framework: it loads the
  CSV file into a database, runs the statement and returns the answer as text, the
  column names on the first line, or the text of an error. It is a parameter of the
  model, a function of the files as they are when it is called.
\<close>

type_synonym csv_tool = "pa_state \<Rightarrow> string \<Rightarrow> string \<Rightarrow> string"

definition nl :: char where
  "nl = CHR 0x0A"

definition quote :: char where
  "quote = CHR 0x27"

definition progress_query :: "string \<Rightarrow> string" where
  "progress_query today =
     [nl] @ ''        SELECT '' @
     [nl] @ ''            COUNT(*) FILTER (WHERE status = '' @ [quote] @ ''completed'' @ [quote]
          @ '' AND due_date = '' @ [quote] @ today @ [quote] @ '') as completed,'' @
     [nl] @ ''            COUNT(*) FILTER (WHERE status = '' @ [quote] @ ''pending'' @ [quote]
          @ '' AND due_date = '' @ [quote] @ today @ [quote] @ '') as pending'' @
     [nl] @ ''        FROM tasks'' @
     [nl] @ ''        ''"

text \<open>
  \<^verbatim>\<open>completed, pending = map(int, counts.split(','))\<close>: ValueError unless there are
  exactly two fields and \<^verbatim>\<open>int\<close> reads both.
\<close>

definition parse_counts :: "string \<Rightarrow> py_error + (int \<times> int)" where
  "parse_counts counts =
     (case split_on CHR '','' counts of
        [a, b] \<Rightarrow>
          (case py_int a of
             Inl e \<Rightarrow> Inl e
           | Inr completed \<Rightarrow>
               (case py_int b of
                  Inl e \<Rightarrow> Inl e
                | Inr pending \<Rightarrow> Inr (completed, pending)))
      | _ \<Rightarrow> Inl ValueError)"

text \<open>
  With fewer than two lines in the answer nothing is written. \<^verbatim>\<open>_, counts = lines\<close> raises
  ValueError on more than two lines.
\<close>

definition update_progress_log ::
  "csv_tool \<Rightarrow> string \<Rightarrow> int \<Rightarrow> pa_state \<Rightarrow> pa_state \<times> (py_error + py_value)" where
  "update_progress_log query_csv_file today migrated_tasks s =
     (let result = query_csv_file s ''tasks'' (progress_query today);
          lines = split_on nl (strip result)
      in if length lines \<ge> 2 then
           (case lines of
              [header, counts] \<Rightarrow>
                (case parse_counts counts of
                   Inl e \<Rightarrow> (s, Inl e)
                 | Inr (completed, pending) \<Rightarrow>
                     (s\<lparr>progress_csv := progress_csv s @
                           [[today, py_str completed, py_str pending, py_str migrated_tasks,
                             score_text completed pending, []]]\<rparr>,
                      Inr PyNone))
            | _ \<Rightarrow> (s, Inl ValueError))
         else (s, Inr PyNone))"

section \<open>\<^verbatim>\<open>PersonalPASystem.migrate_incomplete_tasks\<close>\<close>

text \<open>
  The condition of the loop, \<^verbatim>\<open>row[5] == 'pending' and row[7] <= today\<close>, which compares the
  two dates as text, and the body of the loop for one row: the row as the body leaves it,
  and whether it was counted. An exception leaves the loop, and the function, before
  anything is written.
\<close>

definition rollover_due :: "string \<Rightarrow> row \<Rightarrow> py_error + bool" where
  "rollover_due today row =
     and_then (item row 5) (\<lambda>status.
       if status = ''pending'' then and_then (item row 7) (\<lambda>due. Inr (due \<le> today))
       else Inr False)"

definition migrate_row :: "string \<Rightarrow> row \<Rightarrow> py_error + (row \<times> bool)" where
  "migrate_row today row =
     and_then (rollover_due today row) (\<lambda>due.
       if \<not> due then Inr (row, False)
       else and_then (item row 8) (\<lambda>count.
            and_then (py_int count) (\<lambda>n.
            and_then (set_item row 8 (py_str (n + 1))) (\<lambda>row1.
            and_then (item row1 7) (\<lambda>due1.
            and_then (strptime due1) (\<lambda>due_date.
            and_then (add_one_day due_date) (\<lambda>new_due_date.
            and_then (set_item row1 7 (strftime new_due_date)) (\<lambda>row2.
            Inr (row2, True)))))))))"

fun migrate_loop :: "string \<Rightarrow> table \<Rightarrow> py_error + (table \<times> int)" where
  "migrate_loop today [] = Inr ([], 0)"
| "migrate_loop today (row # rest) =
     (case migrate_row today row of
        Inl e \<Rightarrow> Inl e
      | Inr (row', migrated) \<Rightarrow>
          (case migrate_loop today rest of
             Inl e \<Rightarrow> Inl e
           | Inr (rest', migrated_count) \<Rightarrow>
               Inr (row' # rest', (if migrated then 1 else 0) + migrated_count)))"

text \<open>
  \<open>today\<close> is the date the function reads at its start, \<open>log_today\<close> the date
  \<^verbatim>\<open>_update_progress_log\<close> reads after the tasks are written back. The function has no
  \<^verbatim>\<open>return\<close> statement: its value is \<^verbatim>\<open>None\<close>.
\<close>

definition migrate_incomplete_tasks ::
  "csv_tool \<Rightarrow> string \<Rightarrow> string \<Rightarrow> pa_state \<Rightarrow> pa_state \<times> (py_error + py_value)" where
  "migrate_incomplete_tasks query_csv_file today log_today s =
     (let rows = tasks_csv s in
      case migrate_loop today (tl rows) of
        Inl e \<Rightarrow> (s, Inl e)
      | Inr (data, migrated_count) \<Rightarrow>
          (case update_progress_log query_csv_file log_today migrated_count
                  (s\<lparr>tasks_csv := take 1 rows @ data\<rparr>) of
             (s1, Inl e) \<Rightarrow> (s1, Inl e)
           | (s1, Inr v) \<Rightarrow>
               (print (''Migrated '' @ py_str migrated_count @ '' incomplete tasks'') s1,
                Inr PyNone)))"

section \<open>\<^verbatim>\<open>PersonalPASystem.get_today_schedule\<close>\<close>

text \<open>
  A dictionary is an association list in insertion order; \<^verbatim>\<open>dict(zip(keys, values))\<close>
  keeps the place of the first occurrence of a key and the value of the last. The value
  under a key of a block is text, or, under \<^verbatim>\<open>'tasks'\<close>, a list of dictionaries.
\<close>

datatype cell = Text string | Rows "(string \<times> string) list list"

type_synonym block = "(string \<times> cell) list"

definition dict_zip :: "string list \<Rightarrow> string list \<Rightarrow> (string \<times> string) list" where
  "dict_zip ks vs = fold (\<lambda>(k, v) d. AList.update k v d) (zip ks vs) []"

definition schedule_query :: "string \<Rightarrow> string" where
  "schedule_query today_name =
     [nl] @ ''        SELECT block_id, start_time, end_time, block_name, block_type, task_ids'' @
     [nl] @ ''        FROM schedule'' @
     [nl] @ ''        WHERE day = '' @ [quote] @ today_name @ [quote] @
     [nl] @ ''        ORDER BY start_time'' @
     [nl] @ ''        ''"

text \<open>\<^verbatim>\<open>','.join(task_ids)\<close>.\<close>

fun join_comma :: "string list \<Rightarrow> string" where
  "join_comma [] = []"
| "join_comma [x] = x"
| "join_comma (x # y # ys) = x @ '','' @ join_comma (y # ys)"

definition tasks_query :: "string list \<Rightarrow> string" where
  "tasks_query task_ids =
     [nl] @ ''                    SELECT task_id, title, priority, status'' @
     [nl] @ ''                    FROM tasks'' @
     [nl] @ ''                    WHERE task_id IN ('' @ join_comma task_ids @ '')'' @
     [nl] @ ''                    ORDER BY priority DESC'' @
     [nl] @ ''                    ''"

text \<open>The rows of an answer as dictionaries keyed by its first line.\<close>

definition parse_rows :: "string \<Rightarrow> (string \<times> string) list list" where
  "parse_rows tasks_result =
     (let tasks_lines = split_on nl (strip tasks_result)
      in if length tasks_lines > 1 then
           (let task_headers = split_on CHR '','' (hd tasks_lines)
            in map (\<lambda>task_line. dict_zip task_headers (split_on CHR '','' task_line))
                 (tl tasks_lines))
         else [])"

text \<open>
  The body of the loop over the lines of the schedule: the block, or the exception, and
  the calls of the tool it made, each as the file name and the statement passed.
  \<open>query\<close> is the variable of that name of the enclosing function, the statement that
  selected the blocks. The body builds \<open>tasks_query\<close> and then passes \<open>query\<close> to the tool.
\<close>

definition schedule_block ::
  "(string \<Rightarrow> string \<Rightarrow> string) \<Rightarrow> string \<Rightarrow> string list \<Rightarrow> string
     \<Rightarrow> (py_error + block) \<times> (string \<times> string) list" where
  "schedule_block tool query headers line =
     (let values = split_on CHR '','' line;
          fields = dict_zip headers values;
          block = map (\<lambda>(k, v). (k, Text v)) fields
      in case map_of fields ''task_ids'' of
           None \<Rightarrow> (Inl KeyError, [])
         | Some ids \<Rightarrow>
             if ids \<noteq> [] then
               (let task_ids = split_on CHR '';'' ids;
                    tasks_query = tasks_query task_ids;
                    tasks_result = tool ''tasks'' query;
                    tasks = parse_rows tasks_result
                in (Inr (AList.update ''tasks'' (Rows tasks) block), [(''tasks'', query)]))
             else (Inr (AList.update ''tasks'' (Rows []) block), []))"

fun schedule_loop ::
  "(string \<Rightarrow> string \<Rightarrow> string) \<Rightarrow> string \<Rightarrow> string list \<Rightarrow> string list
     \<Rightarrow> (py_error + block list) \<times> (string \<times> string) list" where
  "schedule_loop tool query headers [] = (Inr [], [])"
| "schedule_loop tool query headers (line # rest) =
     (case schedule_block tool query headers line of
        (Inl e, calls) \<Rightarrow> (Inl e, calls)
      | (Inr block, calls) \<Rightarrow>
          (case schedule_loop tool query headers rest of
             (Inl e, calls') \<Rightarrow> (Inl e, calls @ calls')
           | (Inr schedule, calls') \<Rightarrow> (Inr (block # schedule), calls @ calls')))"

text \<open>\<open>today_name\<close> is \<^verbatim>\<open>datetime.now().strftime('%A')\<close>. The function changes no file.\<close>

definition get_today_schedule ::
  "csv_tool \<Rightarrow> string \<Rightarrow> pa_state \<Rightarrow> (py_error + block list) \<times> (string \<times> string) list" where
  "get_today_schedule query_csv_file today_name s =
     (let query = schedule_query today_name;
          schedule_result = query_csv_file s ''schedule'' query;
          schedule_lines = split_on nl (strip schedule_result)
      in if length schedule_lines > 1 then
           (let headers = split_on CHR '','' (hd schedule_lines)
            in case schedule_loop (query_csv_file s) query headers (tl schedule_lines) of
                 (r, calls) \<Rightarrow> (r, (''schedule'', query) # calls))
         else (Inr [], [(''schedule'', query)]))"

text \<open>
  The test \<^verbatim>\<open>if block['task_ids']:\<close> of the loop, read off a finished block: the block
  names tasks.
\<close>

definition has_task_ids :: "block \<Rightarrow> bool" where
  "has_task_ids b = (case map_of b ''task_ids'' of Some (Text ids) \<Rightarrow> ids \<noteq> [] | _ \<Rightarrow> False)"

section \<open>\<^verbatim>\<open>TaskManagerTools.add_task\<close>\<close>



section \<open>Well-formed task rows\<close>

text \<open>
  A task row as the data model has it: ten fields, the rollover count an integer, the due
  date written \<^verbatim>\<open>YYYY-MM-DD\<close> with leading zeros, that is, the text \<^verbatim>\<open>strftime\<close> prints for
  the date \<^verbatim>\<open>strptime\<close> reads from it, from the year 1000 on (where \<^verbatim>\<open>strftime\<close> prints the
  same text on every platform) and before the last day a \<^verbatim>\<open>datetime\<close> can hold.
\<close>

definition task_row_ok :: "row \<Rightarrow> bool" where
  "task_row_ok r =
     (length r = 10 \<and>
      (case py_int (r ! 8) of Inl e \<Rightarrow> False | Inr n \<Rightarrow> True) \<and>
      (case strptime (r ! 7) of
         Inl e \<Rightarrow> False
       | Inr d \<Rightarrow> strftime d = r ! 7 \<and> 1000 \<le> year d \<and>
                  \<not> (year d = 9999 \<and> month d = 12 \<and> day d = 31)))"

text \<open>
  The condition of the rollover as the specification states it, on dates and not on
  their texts: the task is pending, and its due date is the day \<open>t\<close> or an earlier day.
\<close>

definition due_by_date :: "date \<Rightarrow> row \<Rightarrow> bool" where
  "due_by_date t r =
     (r ! 5 = ''pending'' \<and>
      (case strptime (r ! 7) of Inl e \<Rightarrow> False | Inr d \<Rightarrow> toordinal d \<le> toordinal t))"

text \<open>A tool that answers every statement with one completed and one pending task.\<close>

definition example_tool :: csv_tool where
  "example_tool s name sql = ''completed,pending'' @ [nl] @ ''1,1''"

text \<open>
  A tool whose every answer is the one line the framework returns when a statement
  fails, and a tool that knows one block of the schedule, which names the tasks 5 and 6,
  and fails on every other file.
\<close>

definition failing_tool :: csv_tool where
  "failing_tool s name sql = ''Error querying csv: IO Error''"

definition schedule_tool :: csv_tool where
  "schedule_tool s name sql =
     (if name = ''schedule'' then
        ''block_id,start_time,end_time,block_name,block_type,task_ids'' @ [nl] @
        ''2,06:50,10:00,Core Learning Sessions,learning,5;6''
      else ''Error querying csv: Catalog Error'')"

section \<open>A task file used in the examples\<close>

text \<open>
  Task 5 is pending, due on 2024-01-01 and was carried over twice; a later row repeats
  its id.
\<close>

definition example_header :: row where
  "example_header =
     [''task_id'', ''title'', ''description'', ''category'', ''priority'', ''status'',
      ''created_date'', ''due_date'', ''rollover_count'', ''time_block'']"

definition example_tasks :: table where
  "example_tasks =
     [example_header,
      [''4'', ''Read'', ''Chapter 2'', ''ML'', ''2'', ''completed'',
       ''2023-12-30'', ''2024-01-01'', ''1'', ''Core Learning Sessions''],
      [''5'', ''Solve'', ''Two problems'', ''DSA'', ''1'', ''pending'',
       ''2023-12-30'', ''2024-01-01'', ''2'', ''Core Learning Sessions''],
      [''6'', ''Apply'', ''Three positions'', ''Job Search'', ''1'', ''pending'',
       ''2024-01-02'', ''2024-01-05'', ''0'', ''Job Search and Networking''],
      [''5'', ''Review'', ''Notes'', ''ML'', ''3'', ''in_progress'',
       ''2024-01-01'', ''2024-01-02'', ''7'', ''Reflection and Planning'']]"

text \<open>A task file whose only task has the id U+00B2, the superscript two.\<close>

definition superscript_state :: pa_state where
  "superscript_state =
     \<lparr>tasks_csv =
        [example_header,
         [[CHR 0xB2], ''Read'', ''Chapter 2'', ''ML'', ''2'', ''pending'',
          ''2023-12-30'', ''2024-01-01'', ''0'', ''Core Learning Sessions'']],
      schedule_csv = [],
      progress_csv = [],
      stdout = []\<rparr>"

definition example_state :: pa_state where
  "example_state =
     \<lparr>tasks_csv = example_tasks,
      schedule_csv = [],
      progress_csv =
        [[''date'', ''completed_tasks'', ''pending_tasks'', ''rolled_over_tasks'',
          ''productivity_score'', ''notes'']],
      stdout = []\<rparr>"

section \<open>Properties of \<^verbatim>\<open>update_task_status\<close>\<close>

lemma py_str_digit:
  "py_str 0 = ''0''" "py_str 1 = ''1''" "py_str 2 = ''2''" "py_str 3 = ''3''" "py_str 4 = ''4''"
  "py_str 5 = ''5''" "py_str 6 = ''6''" "py_str 7 = ''7''" "py_str 8 = ''8''" "py_str 9 = ''9''"
  by (simp_all add: py_str_def str_nat.simps digit_char_def)

lemma set_status_completed:
  "9 \<le> length r \<Longrightarrow> set_status ''completed'' r = Inr (r[5 := ''completed'', 8 := ''0''])"
  by (simp add: set_status_def set_item_def)

lemma set_status_other:
  "6 \<le> length r \<Longrightarrow> st \<noteq> ''completed'' \<Longrightarrow> set_status st r = Inr (r[5 := st])"
  by (simp add: set_status_def set_item_def)

lemma update_loop_absent:
  assumes "\<forall>r \<in> set data. \<exists>v. item r 0 = Inr v \<and> v \<noteq> tid"
  shows "update_loop tid st data = Inr (data, False)"
  using assms by (induction data) auto

lemma update_loop_found:
  assumes "i < length data" and "item (data ! i) 0 = Inr tid"
    and "\<forall>j<i. \<exists>v. item (data ! j) 0 = Inr v \<and> v \<noteq> tid"
  shows "update_loop tid st data =
           (case set_status st (data ! i) of
              Inl e \<Rightarrow> Inl e
            | Inr r \<Rightarrow> Inr (data[i := r], True))"
  using assms
proof (induction data arbitrary: i)
  case Nil
  then show ?case by simp
next
  case (Cons row rest)
  show ?case
  proof (cases i)
    case 0
    with Cons.prems show ?thesis by (simp split: sum.splits)
  next
    case (Suc k)
    from Cons.prems(3) Suc obtain v where v: "item row 0 = Inr v" "v \<noteq> tid"
      by fastforce
    have "\<forall>j<k. \<exists>v. item (rest ! j) 0 = Inr v \<and> v \<noteq> tid"
      using Cons.prems(3) Suc by fastforce
    with Cons.IH [of k] Cons.prems(1,2) Suc
    have "update_loop tid st rest =
           (case set_status st (rest ! k) of
              Inl e \<Rightarrow> Inl e
            | Inr r \<Rightarrow> Inr (rest[k := r], True))"
      by simp
    with v Suc show ?thesis by (simp split: sum.splits)
  qed
qed

lemma take1_tl_update:
  "0 < i \<Longrightarrow> i < length rows \<Longrightarrow> take 1 rows @ (tl rows)[i - 1 := r] = rows[i := r]"
  by (cases rows; cases i) simp_all

text \<open>The call when the first row with the wanted id is row \<open>i\<close> and the row is long enough.\<close>

lemma update_task_status_found:
  assumes "0 < i" and "i < length (tasks_csv s)"
    and "item (tasks_csv s ! i) 0 = Inr (py_str task_id)"
    and "\<forall>j. 0 < j \<and> j < i \<longrightarrow> (\<exists>v. item (tasks_csv s ! j) 0 = Inr v \<and> v \<noteq> py_str task_id)"
    and "set_status new_status (tasks_csv s ! i) = Inr r"
  shows "update_task_status task_id new_status s =
           (print (''Task '' @ py_str task_id @ '' status updated to '' @ [CHR 0x27]
                      @ new_status @ [CHR 0x27])
              (s\<lparr>tasks_csv := (tasks_csv s)[i := r]\<rparr>),
            Inr PyNone)"
proof -
  let ?rows = "tasks_csv s"
  let ?data = "tl ?rows"
  have nth: "\<And>j. 0 < j \<Longrightarrow> j < length ?rows \<Longrightarrow> ?data ! (j - 1) = ?rows ! j"
    by (cases ?rows) (auto simp: nth_Cons')
  have a: "i - 1 < length ?data" using assms(1,2) by simp
  have b: "item (?data ! (i - 1)) 0 = Inr (py_str task_id)"
    using assms(1,2,3) nth by simp
  have c: "\<forall>j<i - 1. \<exists>v. item (?data ! j) 0 = Inr v \<and> v \<noteq> py_str task_id"
  proof (intro allI impI)
    fix j assume "j < i - 1"
    then have "0 < Suc j" "Suc j < i" "Suc j < length ?rows" using assms(2) by auto
    with assms(4) nth [of "Suc j"] show "\<exists>v. item (?data ! j) 0 = Inr v \<and> v \<noteq> py_str task_id"
      by fastforce
  qed
  have d: "set_status new_status (?data ! (i - 1)) = Inr r"
    using assms(1,2,5) nth by simp
  have "update_loop (py_str task_id) new_status ?data = Inr (?data[i - 1 := r], True)"
    using update_loop_found [OF a b c, of new_status] d by simp
  then show ?thesis
    using take1_tl_update [OF assms(1,2), of r]
    by (simp add: update_task_status_def Let_def)
qed

text \<open>
  Claim C3. Marking a task completed: when the first row with the wanted id has all its
  columns, the call ends normally, and afterwards the status of that row is
  \<^verbatim>\<open>completed\<close> and its rollover count is \<^verbatim>\<open>0\<close>, whatever the count was before.
\<close>

theorem update_task_status_completed:
  assumes "0 < i" and "i < length (tasks_csv s)"
    and "item (tasks_csv s ! i) 0 = Inr (py_str task_id)"
    and "\<forall>j. 0 < j \<and> j < i \<longrightarrow> (\<exists>v. item (tasks_csv s ! j) 0 = Inr v \<and> v \<noteq> py_str task_id)"
    and "9 \<le> length (tasks_csv s ! i)"
  shows "\<exists>s'. update_task_status task_id ''completed'' s = (s', Inr PyNone) \<and>
               item (tasks_csv s' ! i) 5 = Inr ''completed'' \<and>
               item (tasks_csv s' ! i) 8 = Inr ''0''"
proof -
  let ?r = "(tasks_csv s ! i)[5 := ''completed'', 8 := ''0'']"
  have "set_status ''completed'' (tasks_csv s ! i) = Inr ?r"
    using assms(5) by (rule set_status_completed)
  from update_task_status_found [OF assms(1-4) this]
  show ?thesis using assms(2,5) by (simp add: print_def item_def)
qed

theorem update_task_status_completed_witness:
  "\<exists>s'. update_task_status 5 ''completed'' example_state = (s', Inr PyNone) \<and>
        item (tasks_csv s' ! 2) 5 = Inr ''completed'' \<and>
        item (tasks_csv s' ! 2) 8 = Inr ''0''"
proof (rule update_task_status_completed)
  show "0 < (2::nat)" by simp
  show "2 < length (tasks_csv example_state)"
    by (simp add: example_state_def example_tasks_def)
  show "item (tasks_csv example_state ! 2) 0 = Inr (py_str 5)"
    by (simp add: example_state_def example_tasks_def item_def py_str_digit)
  show "\<forall>j. 0 < j \<and> j < 2 \<longrightarrow>
          (\<exists>v. item (tasks_csv example_state ! j) 0 = Inr v \<and> v \<noteq> py_str 5)"
  proof (intro allI impI)
    fix j :: nat assume "0 < j \<and> j < 2"
    then have "j = 1" by simp
    then show "\<exists>v. item (tasks_csv example_state ! j) 0 = Inr v \<and> v \<noteq> py_str 5"
      by (simp add: example_state_def example_tasks_def item_def py_str_digit)
  qed
  show "9 \<le> length (tasks_csv example_state ! 2)"
    by (simp add: example_state_def example_tasks_def)
qed

text \<open>
  Claim C6. When no row after the header carries the wanted id, the call prints the
  not-found message and returns; the three tables are the ones it started with.
\<close>

theorem update_task_status_unknown_id:
  assumes "\<forall>r \<in> set (tl (tasks_csv s)). \<exists>v. item r 0 = Inr v \<and> v \<noteq> py_str task_id"
  shows "update_task_status task_id new_status s =
           (s\<lparr>stdout := stdout s @ [''Task with ID '' @ py_str task_id @ '' not found.'']\<rparr>,
            Inr PyNone)"
  using update_loop_absent [OF assms, of new_status]
  by (simp add: update_task_status_def print_def)

theorem update_task_status_unknown_id_witness:
  "update_task_status 7 ''completed'' example_state =
     (example_state\<lparr>stdout := [''Task with ID 7 not found.'']\<rparr>, Inr PyNone)"
proof -
  have "\<forall>r \<in> set (tl (tasks_csv example_state)). \<exists>v. item r 0 = Inr v \<and> v \<noteq> py_str 7"
    by (simp add: example_state_def example_tasks_def item_def py_str_digit)
  from update_task_status_unknown_id [OF this, of "''completed''"]
  show ?thesis by (simp add: py_str_digit example_state_def)
qed

text \<open>
  Claim C9. The call changes the first row whose id matches and nothing else: every
  other row, a later row with the same id included, is as before, and in the changed
  row every field but the status, and the rollover count when the new status is
  \<^verbatim>\<open>completed\<close>, is as before. The schedule and the progress log are not touched.
\<close>

theorem update_task_status_frame:
  assumes "0 < i" and "i < length (tasks_csv s)"
    and "item (tasks_csv s ! i) 0 = Inr (py_str task_id)"
    and "\<forall>j. 0 < j \<and> j < i \<longrightarrow> (\<exists>v. item (tasks_csv s ! j) 0 = Inr v \<and> v \<noteq> py_str task_id)"
    and "(if new_status = ''completed'' then 9 else 6) \<le> length (tasks_csv s ! i)"
  shows "\<exists>s'. update_task_status task_id new_status s = (s', Inr PyNone) \<and>
               length (tasks_csv s') = length (tasks_csv s) \<and>
               (\<forall>j < length (tasks_csv s). j \<noteq> i \<longrightarrow> tasks_csv s' ! j = tasks_csv s ! j) \<and>
               length (tasks_csv s' ! i) = length (tasks_csv s ! i) \<and>
               (\<forall>k < length (tasks_csv s ! i).
                  k \<noteq> 5 \<and> \<not> (k = 8 \<and> new_status = ''completed'') \<longrightarrow>
                  tasks_csv s' ! i ! k = tasks_csv s ! i ! k) \<and>
               schedule_csv s' = schedule_csv s \<and> progress_csv s' = progress_csv s"
proof (cases "new_status = ''completed''")
  case True
  let ?r = "(tasks_csv s ! i)[5 := ''completed'', 8 := ''0'']"
  have "set_status new_status (tasks_csv s ! i) = Inr ?r"
    using assms(5) True by (simp add: set_status_completed)
  from update_task_status_found [OF assms(1-4) this]
  show ?thesis using assms(2) True by (simp add: print_def)
next
  case False
  let ?r = "(tasks_csv s ! i)[5 := new_status]"
  have "set_status new_status (tasks_csv s ! i) = Inr ?r"
    using assms(5) False by (simp add: set_status_other)
  from update_task_status_found [OF assms(1-4) this]
  show ?thesis using assms(2) False by (simp add: print_def)
qed

theorem update_task_status_frame_witness:
  "\<exists>s'. update_task_status 5 ''in_progress'' example_state = (s', Inr PyNone) \<and>
        tasks_csv s' ! 4 = tasks_csv example_state ! 4 \<and>
        item (tasks_csv example_state ! 4) 0 = Inr ''5'' \<and>
        tasks_csv s' ! 2 ! 8 = ''2'' \<and>
        length (tasks_csv s') = 5"
proof -
  have 1: "0 < (2::nat)" by simp
  have 2: "2 < length (tasks_csv example_state)"
    by (simp add: example_state_def example_tasks_def)
  have 3: "item (tasks_csv example_state ! 2) 0 = Inr (py_str 5)"
    by (simp add: example_state_def example_tasks_def item_def py_str_digit)
  have 4: "\<forall>j. 0 < j \<and> j < 2 \<longrightarrow>
          (\<exists>v. item (tasks_csv example_state ! j) 0 = Inr v \<and> v \<noteq> py_str 5)"
  proof (intro allI impI)
    fix j :: nat assume "0 < j \<and> j < 2"
    then have "j = 1" by simp
    then show "\<exists>v. item (tasks_csv example_state ! j) 0 = Inr v \<and> v \<noteq> py_str 5"
      by (simp add: example_state_def example_tasks_def item_def py_str_digit)
  qed
  have 5: "(if ''in_progress'' = ''completed'' then 9 else 6)
             \<le> length (tasks_csv example_state ! 2)"
    by (simp add: example_state_def example_tasks_def)
  from update_task_status_frame [OF 1 2 3 4 5]
  obtain s' where s': "update_task_status 5 ''in_progress'' example_state = (s', Inr PyNone)"
    "length (tasks_csv s') = length (tasks_csv example_state)"
    "\<forall>j < length (tasks_csv example_state). j \<noteq> 2 \<longrightarrow> tasks_csv s' ! j = tasks_csv example_state ! j"
    "\<forall>k < length (tasks_csv example_state ! 2).
        k \<noteq> 5 \<and> \<not> (k = 8 \<and> ''in_progress'' = ''completed'') \<longrightarrow>
        tasks_csv s' ! 2 ! k = tasks_csv example_state ! 2 ! k"
    by blast
  have len: "length (tasks_csv example_state) = 5" "length (tasks_csv example_state ! 2) = 10"
    by (simp_all add: example_state_def example_tasks_def)
  have a: "tasks_csv s' ! 4 = tasks_csv example_state ! 4"
    using s'(3) len by simp
  have b: "tasks_csv s' ! 2 ! 8 = tasks_csv example_state ! 2 ! 8"
    using s'(4) len by simp
  show ?thesis
    using s'(1,2) a b
    by (simp add: example_state_def example_tasks_def item_def)
qed

section \<open>Properties of \<^verbatim>\<open>str\<close>, \<^verbatim>\<open>int\<close> and \<^verbatim>\<open>add_task\<close>\<close>

lemma digit_char_cases:
  assumes "d < 10"
  shows "is_decimal (digit_char d) \<and> digit_val (digit_char d) = d \<and>
         \<not> int_space (digit_char d)"
proof -
  from assms have "d = 0 \<or> d = 1 \<or> d = 2 \<or> d = 3 \<or> d = 4 \<or> d = 5 \<or> d = 6 \<or> d = 7
      \<or> d = 8 \<or> d = 9"
    by arith
  then show ?thesis
    by (elim disjE) (simp_all add: digit_char_def is_decimal_def digit_val_def int_space_def)
qed

lemma is_decimal_not_sign:
  "is_decimal c \<Longrightarrow> c \<noteq> CHR ''-'' \<and> c \<noteq> CHR ''+'' \<and> \<not> int_space c"
  by (auto simp: is_decimal_def int_space_def)

lemma str_nat_decimal: "str_nat n \<noteq> [] \<and> list_all is_decimal (str_nat n)"
proof (induction n rule: str_nat.induct)
  case (1 n)
  show ?case
  proof (cases "n < 10")
    case True
    then show ?thesis using digit_char_cases [of n] by (simp add: str_nat.simps [of n])
  next
    case False
    then show ?thesis
      using 1 digit_char_cases [of "n mod 10"] by (simp add: str_nat.simps [of n])
  qed
qed

lemma int_digits_snoc:
  "list_all is_decimal xs \<Longrightarrow> is_decimal c \<Longrightarrow>
   int_digits acc (xs @ [c]) = map_option (\<lambda>v. v * 10 + digit_val c) (int_digits acc xs)"
  by (induction xs arbitrary: acc) simp_all

lemma int_digits_str_nat: "int_digits 0 (str_nat n) = Some n"
proof (induction n rule: str_nat.induct)
  case (1 n)
  show ?case
  proof (cases "n < 10")
    case True
    then show ?thesis using digit_char_cases [of n] by (simp add: str_nat.simps [of n])
  next
    case False
    then have "int_digits 0 (str_nat (n div 10)) = Some (n div 10)" using 1 by simp
    then show ?thesis
      using False str_nat_decimal [of "n div 10"] digit_char_cases [of "n mod 10"]
      by (simp add: str_nat.simps [of n] int_digits_snoc)
  qed
qed

lemma int_unsigned_decimal:
  "s \<noteq> [] \<Longrightarrow> list_all is_decimal s \<Longrightarrow> int_unsigned s = int_digits 0 s"
  by (cases s) (simp_all add: int_unsigned_def)

lemma int_unsigned_str_nat: "int_unsigned (str_nat n) = Some n"
  using str_nat_decimal [of n] by (simp add: int_unsigned_decimal int_digits_str_nat)

lemma strip_with_id:
  assumes "s \<noteq> []" and "\<not> sp (hd s)" and "\<not> sp (last s)"
  shows "strip_with sp s = s"
proof -
  have "dropWhile sp s = s" using assms(1,2) by (cases s) simp_all
  moreover have "dropWhile sp (rev s) = rev s"
    using assms(1,3) by (cases "rev s") (simp_all add: last_rev [symmetric] hd_rev)
  ultimately show ?thesis by (simp add: strip_with_def)
qed

lemma str_nat_ends:
  "is_decimal (hd (str_nat n))" "is_decimal (last (str_nat n))"
  using str_nat_decimal [of n]
  by (cases "str_nat n"; simp add: list_all_iff)+

text \<open>\<^verbatim>\<open>int(str(n)) == n\<close>.\<close>

lemma py_int_py_str: "py_int (py_str n) = Inr n"
proof (cases "n < 0")
  case True
  let ?s = "CHR ''-'' # str_nat (nat (- n))"
  have "last ?s = last (str_nat (nat (- n)))" using str_nat_decimal by simp
  then have "\<not> int_space (last ?s)" using str_nat_ends(2) is_decimal_not_sign by simp
  moreover have "\<not> int_space (hd ?s)" by (simp add: int_space_def)
  ultimately have "strip_with int_space ?s = ?s" by (simp add: strip_with_id)
  then show ?thesis using True by (simp add: py_int_def py_str_def int_unsigned_str_nat)
next
  case False
  let ?s = "str_nat (nat n)"
  have ne: "?s \<noteq> []" using str_nat_decimal by simp
  have "strip_with int_space ?s = ?s"
    using ne str_nat_ends [of "nat n"] is_decimal_not_sign by (simp add: strip_with_id)
  moreover obtain c cs where cs: "?s = c # cs" using ne by (cases ?s) auto
  moreover have "is_decimal c" using str_nat_ends(1) [of "nat n"] cs by simp
  ultimately show ?thesis
    using False int_unsigned_str_nat [of "nat n"] is_decimal_not_sign [of c]
    by (simp add: py_int_def py_str_def)
qed








text \<open>
  Claim C10 at the task file \<open>superscript_state\<close>: \<^verbatim>\<open>isdigit\<close> accepts the id, \<^verbatim>\<open>int\<close>
  raises ValueError on it, and \<^verbatim>\<open>add_task\<close> ends with that exception and adds nothing.
\<close>

theorem add_task_superscript_id:
  "isdigit [CHR 0xB2] \<and> py_int [CHR 0xB2] = Inl ValueError \<and>
   add_task ''2024-01-02'' ''Plan'' ''Next week'' ''ML'' 2 ''2024-01-03''
     ''Reflection and Planning'' superscript_state = (superscript_state, Inl ValueError)"
  by (simp add: isdigit_def isdigit_char_def is_decimal_def py_int_def strip_with_def
      int_space_def int_unsigned_def add_task_def next_task_id_def item_def
      superscript_state_def)

text \<open>
  What does hold of the filter in \<^verbatim>\<open>add_task\<close>: a row whose id \<^verbatim>\<open>isdigit\<close> refuses is
  skipped, and when it refuses every id the new task gets the id 1.
\<close>

lemma collect_task_ids_none:
  assumes "\<forall>r \<in> set data. \<exists>v. item r 0 = Inr v \<and> \<not> isdigit v"
  shows "collect_task_ids data = Inr []"
  using assms by (induction data) auto

lemma next_task_id_no_digit_ids:
  assumes "\<forall>r \<in> set (tl rows). \<exists>v. item r 0 = Inr v \<and> \<not> isdigit v"
  shows "next_task_id rows = Inr 1"
  using collect_task_ids_none [OF assms] by (simp add: next_task_id_def)

section \<open>Properties of the date functions\<close>

lemma str_nat_step: "10 \<le> n \<Longrightarrow> str_nat n = str_nat (n div 10) @ [digit_char (n mod 10)]"
  by (subst str_nat.simps) simp

lemma str_nat_small: "n < 10 \<Longrightarrow> str_nat n = [digit_char n]"
  by (subst str_nat.simps) simp

lemma four_digits_value:
  "1000 * ((n::nat) div 1000) + 100 * (n div 100 mod 10) + 10 * (n div 10 mod 10) + n mod 10 = n"
proof -
  define q1 q2 q3 r0 r1 r2 where "q1 = n div 10" and "q2 = n div 100" and "q3 = n div 1000"
    and "r0 = n mod 10" and "r1 = n div 10 mod 10" and "r2 = n div 100 mod 10"
  have "n div 10 div 10 = n div 100" "n div 100 div 10 = n div 1000"
    by (simp_all add: div_mult2_eq [symmetric])
  then have "n = 10 * q1 + r0" "q1 = 10 * q2 + r1" "q2 = 10 * q3 + r2"
    unfolding q1_def q2_def q3_def r0_def r1_def r2_def
    using div_mult_mod_eq [of n 10] div_mult_mod_eq [of "n div 10" 10]
      div_mult_mod_eq [of "n div 100" 10]
    by (simp_all add: mult.commute)
  then have "1000 * q3 + 100 * r2 + 10 * r1 + r0 = n" by linarith
  then show ?thesis
    unfolding q1_def q2_def q3_def r0_def r1_def r2_def .
qed

lemma str_nat_four_digits:
  assumes "1000 \<le> n" and "n \<le> 9999"
  shows "str_nat n = [digit_char (n div 1000), digit_char (n div 100 mod 10),
                      digit_char (n div 10 mod 10), digit_char (n mod 10)]"
proof -
  have e: "n div 10 div 10 = n div 100" "n div 100 div 10 = n div 1000"
    by (simp_all add: div_mult2_eq [symmetric])
  have "10 \<le> n" "10 \<le> n div 10" "10 \<le> n div 100" "n div 1000 < 10"
    using assms by arith+
  then show ?thesis
    using str_nat_step [of n] str_nat_step [of "n div 10"] str_nat_step [of "n div 100"]
      str_nat_small [of "n div 1000"] e
    by simp
qed

lemma parse_year_four_digits:
  assumes "1000 \<le> n" and "n \<le> 9999"
  shows "parse_year (str_nat n @ rest) = Some (n, rest)"
proof -
  have "n div 1000 < 10" "n div 100 mod 10 < 10" "n div 10 mod 10 < 10" "n mod 10 < 10"
    using assms by arith+
  then show ?thesis
    using assms four_digits_value [of n] by (simp add: str_nat_four_digits digit_char_cases)
qed

lemma parse_month_pad2:
  assumes "1 \<le> m" and "m \<le> 12"
  shows "parse_month (pad2 m @ CHR ''-'' # rest) = Some (m, CHR ''-'' # rest)"
proof -
  from assms have "m = 1 \<or> m = 2 \<or> m = 3 \<or> m = 4 \<or> m = 5 \<or> m = 6 \<or> m = 7 \<or> m = 8
      \<or> m = 9 \<or> m = 10 \<or> m = 11 \<or> m = 12"
    by arith
  then show ?thesis
    by (elim disjE) (simp_all add: pad2_def digit_char_def nonzero_digit_def digit_val_def)
qed

lemma parse_day_digits:
  assumes "a < 4" and "b < 10" and "\<not> (a = 0 \<and> b = 0)" and "a = 3 \<longrightarrow> b \<le> 1"
  shows "parse_day [digit_char a, digit_char b] = Some (10 * a + b, [])"
proof -
  from assms(1) have a: "a = 0 \<or> a = 1 \<or> a = 2 \<or> a = 3" by arith
  from assms(2) have b: "b = 0 \<or> b = 1 \<or> b = 2 \<or> b = 3 \<or> b = 4 \<or> b = 5 \<or> b = 6 \<or> b = 7
      \<or> b = 8 \<or> b = 9" by arith
  from a show ?thesis
  proof (elim disjE)
    assume "a = 0"
    with b assms(3) show ?thesis
      by (elim disjE)
        (simp_all add: digit_char_def nonzero_digit_def digit_val_def is_decimal_def)
  next
    assume "a = 1"
    with b show ?thesis
      by (elim disjE)
        (simp_all add: digit_char_def nonzero_digit_def digit_val_def is_decimal_def)
  next
    assume "a = 2"
    with b show ?thesis
      by (elim disjE)
        (simp_all add: digit_char_def nonzero_digit_def digit_val_def is_decimal_def)
  next
    assume "a = 3"
    with assms(4) have "b = 0 \<or> b = 1" by arith
    with \<open>a = 3\<close> show ?thesis
      by (elim disjE)
        (simp_all add: digit_char_def nonzero_digit_def digit_val_def is_decimal_def)
  qed
qed

lemma parse_day_pad2:
  assumes "1 \<le> d" and "d \<le> 31"
  shows "parse_day (pad2 d) = Some (d, [])"
proof -
  have "d div 10 < 4" "d mod 10 < 10" "\<not> (d div 10 = 0 \<and> d mod 10 = 0)"
    "d div 10 = 3 \<longrightarrow> d mod 10 \<le> 1"
    using assms by arith+
  from parse_day_digits [OF this] show ?thesis by (simp add: pad2_def)
qed

lemma days_in_month_le: "days_in_month y m \<le> 31"
  by (simp add: days_in_month_def)

text \<open>\<^verbatim>\<open>strptime\<close> reads back what \<^verbatim>\<open>strftime\<close> prints.\<close>

lemma strptime_strftime:
  assumes "valid_date d" and "1000 \<le> year d"
  shows "strptime (strftime d) = Inr d"
proof -
  have y: "1000 \<le> year d" "year d \<le> 9999" and m: "1 \<le> month d" "month d \<le> 12"
    and dd: "1 \<le> day d" "day d \<le> 31"
    using assms days_in_month_le [of "year d" "month d"] by (auto simp: valid_date_def)
  have "strftime d = str_nat (year d) @ (CHR ''-'' # pad2 (month d) @ CHR ''-'' # pad2 (day d))"
    by (simp add: strftime_def)
  then show ?thesis
    using assms(1)
    by (simp add: valid_date_def strptime_def parse_year_four_digits [OF y] parse_month_pad2 [OF m]
        parse_day_pad2 [OF dd])
qed

lemma valid_date_next_day:
  assumes "valid_date d" and "\<not> (year d = 9999 \<and> month d = 12 \<and> day d = 31)"
  shows "valid_date (next_day d)"
  using assms by (auto simp: valid_date_def next_day_def days_in_month_def)

lemma days_before_year_nat:
  "days_before_year (Suc n) = int n * 365 + int (n div 4) - int (n div 100) + int (n div 400)"
  by (simp add: days_before_year_def Let_def zdiv_int)

lemma leap_mods:
  "(k::nat) mod 400 = 0 \<Longrightarrow> k mod 100 = 0"
  "(k::nat) mod 100 = 0 \<Longrightarrow> k mod 4 = 0"
proof -
  have a: "k mod 400 mod 100 = k mod 100" by (rule mod_mod_cancel) simp
  have b: "k mod 100 mod 4 = k mod 4" by (rule mod_mod_cancel) simp
  show "k mod 400 = 0 \<Longrightarrow> k mod 100 = 0" using a by simp
  show "k mod 100 = 0 \<Longrightarrow> k mod 4 = 0" using b by simp
qed

lemma days_before_year_Suc:
  assumes "1 \<le> y"
  shows "days_before_year (Suc y) = days_before_year y + (if is_leap y then 366 else 365)"
proof -
  from assms obtain n where y: "y = Suc n" by (cases y) auto
  note leap_mods [of "Suc n"]
  then show ?thesis
    unfolding y days_before_year_nat is_leap_def
    by (auto simp: div_Suc)
qed

lemma days_before_month_Suc:
  assumes "1 \<le> m" and "m < 12"
  shows "days_before_month y (Suc m) = days_before_month y m + int (days_in_month y m)"
proof -
  from assms have "m = 1 \<or> m = 2 \<or> m = 3 \<or> m = 4 \<or> m = 5 \<or> m = 6 \<or> m = 7 \<or> m = 8
      \<or> m = 9 \<or> m = 10 \<or> m = 11"
    by arith
  then show ?thesis
    by (elim disjE) (simp_all add: days_before_month_def days_in_month_def)
qed

text \<open>The calendar successor is the day whose ordinal is one more.\<close>

lemma toordinal_next_day:
  assumes "valid_date d"
  shows "toordinal (next_day d) = toordinal d + 1"
proof -
  have v: "1 \<le> year d" "1 \<le> month d" "month d \<le> 12" "1 \<le> day d"
    "day d \<le> days_in_month (year d) (month d)"
    using assms by (auto simp: valid_date_def)
  consider (a) "day d < days_in_month (year d) (month d)"
    | (b) "day d = days_in_month (year d) (month d)" "month d < 12"
    | (c) "day d = days_in_month (year d) (month d)" "month d = 12"
    using v by linarith
  then show ?thesis
  proof cases
    case a
    then show ?thesis by (simp add: next_day_def toordinal_def)
  next
    case b
    then show ?thesis
      using days_before_month_Suc [OF v(2) b(2), of "year d"]
      by (simp add: next_day_def toordinal_def)
  next
    case c
    then show ?thesis
      using days_before_year_Suc [OF v(1)]
      by (simp add: next_day_def toordinal_def days_before_month_def days_in_month_def)
  qed
qed

subsection \<open>The order of date texts\<close>

lemma of_char_digit_char: "d < 10 \<Longrightarrow> of_char (digit_char d) = 48 + d"
proof -
  assume "d < 10"
  then have "d = 0 \<or> d = 1 \<or> d = 2 \<or> d = 3 \<or> d = 4 \<or> d = 5 \<or> d = 6 \<or> d = 7
      \<or> d = 8 \<or> d = 9"
    by arith
  then show ?thesis by (elim disjE) (simp_all add: digit_char_def)
qed

lemma digit_char_less: "a < 10 \<Longrightarrow> b < 10 \<Longrightarrow> digit_char a < digit_char b \<longleftrightarrow> a < b"
  by (simp add: less_char_def of_char_digit_char)

lemma digit_char_eq: "a < 10 \<Longrightarrow> b < 10 \<Longrightarrow> digit_char a = digit_char b \<longleftrightarrow> a = b"
proof -
  assume a: "a < 10" and b: "b < 10"
  have "digit_char a = digit_char b \<Longrightarrow> a = b"
  proof -
    assume "digit_char a = digit_char b"
    then have "(of_char (digit_char a) :: nat) = of_char (digit_char b)" by simp
    then show "a = b" using a b by (simp add: of_char_digit_char)
  qed
  then show ?thesis by auto
qed

lemma digit_pair_less:
  fixes a b c d :: nat
  assumes "b < 10" and "d < 10"
  shows "a * 10 + b < c * 10 + d \<longleftrightarrow> a < c \<or> a = c \<and> b < d"
  using assms by arith

lemma str_nat_length_small: "length (str_nat n) = 1 \<longleftrightarrow> n < 10"
proof (cases "n < 10")
  case True
  then show ?thesis by (simp add: str_nat_small)
next
  case False
  then show ?thesis using str_nat_decimal [of "n div 10"] by (simp add: str_nat_step)
qed

text \<open>Decimal texts of the same length are ordered as the numbers are.\<close>

lemma str_nat_append_le:
  "length (str_nat m) = length (str_nat n) \<Longrightarrow>
   str_nat m @ xs \<le> str_nat n @ ys \<longleftrightarrow> m < n \<or> m = n \<and> xs \<le> ys"
proof (induction m arbitrary: n xs ys rule: str_nat.induct)
  case (1 m)
  show ?case
  proof (cases "m < 10")
    case True
    then have "n < 10" using "1.prems" str_nat_length_small [of n] by (simp add: str_nat_small)
    with True show ?thesis
      by (auto simp: str_nat_small digit_char_less digit_char_eq)
  next
    case False
    then have n: "\<not> n < 10"
      using "1.prems" str_nat_length_small [of n] str_nat_length_small [of m] by simp
    have len: "length (str_nat (m div 10)) = length (str_nat (n div 10))"
      using "1.prems" False n by (simp add: str_nat_step)
    have "str_nat m @ xs \<le> str_nat n @ ys \<longleftrightarrow>
        str_nat (m div 10) @ (digit_char (m mod 10) # xs)
          \<le> str_nat (n div 10) @ (digit_char (n mod 10) # ys)"
      using False n by (simp add: str_nat_step)
    also have "\<dots> \<longleftrightarrow> m div 10 < n div 10 \<or>
        m div 10 = n div 10 \<and> digit_char (m mod 10) # xs \<le> digit_char (n mod 10) # ys"
      using "1.IH" [OF False len] .
    also have "\<dots> \<longleftrightarrow> m div 10 < n div 10 \<or>
        m div 10 = n div 10 \<and> (m mod 10 < n mod 10 \<or> m mod 10 = n mod 10 \<and> xs \<le> ys)"
      by (simp add: digit_char_less digit_char_eq)
    also have "\<dots> \<longleftrightarrow> m < n \<or> m = n \<and> xs \<le> ys"
    proof -
      have "m = m div 10 * 10 + m mod 10" "n = n div 10 * 10 + n mod 10" by simp_all
      moreover have "m mod 10 < 10" "n mod 10 < 10" by simp_all
      ultimately show ?thesis
        using digit_pair_less [of "m mod 10" "n mod 10" "m div 10" "n div 10"]
        by (metis nat_neq_iff)
    qed
    finally show ?thesis .
  qed
qed

lemma pad2_append_le:
  assumes "a < 100" and "b < 100"
  shows "pad2 a @ xs \<le> pad2 b @ ys \<longleftrightarrow> a < b \<or> a = b \<and> xs \<le> ys"
proof -
  have d: "a div 10 < 10" "a mod 10 < 10" "b div 10 < 10" "b mod 10 < 10"
    using assms by simp_all
  have "pad2 a @ xs \<le> pad2 b @ ys \<longleftrightarrow>
      a div 10 < b div 10 \<or> a div 10 = b div 10 \<and>
        (a mod 10 < b mod 10 \<or> a mod 10 = b mod 10 \<and> xs \<le> ys)"
    using d by (simp add: pad2_def digit_char_less digit_char_eq)
  also have "\<dots> \<longleftrightarrow> a < b \<or> a = b \<and> xs \<le> ys"
  proof -
    have "a = a div 10 * 10 + a mod 10" "b = b div 10 * 10 + b mod 10" by simp_all
    then show ?thesis
      using digit_pair_less [of "a mod 10" "b mod 10" "a div 10" "b div 10"] d
      by (metis nat_neq_iff)
  qed
  finally show ?thesis .
qed

lemma str_nat_length_four:
  assumes "1000 \<le> n" and "n \<le> 9999"
  shows "length (str_nat n) = 4"
  using assms by (simp add: str_nat_four_digits)

text \<open>
  The texts \<^verbatim>\<open>strftime\<close> prints are ordered as the triples of year, month and day.
\<close>

lemma strftime_le_lex:
  assumes "valid_date d1" and "1000 \<le> year d1" and "valid_date d2" and "1000 \<le> year d2"
  shows "strftime d1 \<le> strftime d2 \<longleftrightarrow>
         year d1 < year d2 \<or> year d1 = year d2 \<and>
           (month d1 < month d2 \<or> month d1 = month d2 \<and> day d1 \<le> day d2)"
proof -
  have y: "year d1 \<le> 9999" "year d2 \<le> 9999"
    and m: "month d1 < 100" "month d2 < 100"
    and dd: "day d1 < 100" "day d2 < 100"
    using assms(1,3) days_in_month_le [of "year d1" "month d1"]
      days_in_month_le [of "year d2" "month d2"]
    by (auto simp: valid_date_def)
  have len: "length (str_nat (year d1)) = length (str_nat (year d2))"
    using assms(2,4) y by (simp add: str_nat_length_four)
  have day: "pad2 (day d1) \<le> pad2 (day d2) \<longleftrightarrow> day d1 \<le> day d2"
    using pad2_append_le [OF dd, of "[]" "[]"] by auto
  have "strftime d1 \<le> strftime d2 \<longleftrightarrow>
      str_nat (year d1) @ (CHR ''-'' # pad2 (month d1) @ CHR ''-'' # pad2 (day d1))
        \<le> str_nat (year d2) @ (CHR ''-'' # pad2 (month d2) @ CHR ''-'' # pad2 (day d2))"
    by (simp add: strftime_def)
  also have "\<dots> \<longleftrightarrow> year d1 < year d2 \<or> year d1 = year d2 \<and>
      pad2 (month d1) @ CHR ''-'' # pad2 (day d1) \<le> pad2 (month d2) @ CHR ''-'' # pad2 (day d2)"
    by (simp add: str_nat_append_le [OF len])
  also have "\<dots> \<longleftrightarrow> year d1 < year d2 \<or> year d1 = year d2 \<and>
      (month d1 < month d2 \<or> month d1 = month d2 \<and> day d1 \<le> day d2)"
    by (simp add: pad2_append_le [OF m] day)
  finally show ?thesis .
qed

subsection \<open>The order of ordinals\<close>

lemma days_before_month_mono:
  assumes "1 \<le> m1" and "m1 < m2" and "m2 \<le> 12"
  shows "days_before_month y m1 + int (days_in_month y m1) \<le> days_before_month y m2"
  using assms(2,3)
proof (induction m2)
  case 0
  then show ?case by simp
next
  case (Suc k)
  have k: "1 \<le> k" "k < 12" using Suc.prems assms(1) by simp_all
  have step: "days_before_month y (Suc k) = days_before_month y k + int (days_in_month y k)"
    using k by (rule days_before_month_Suc)
  show ?case
  proof (cases "m1 = k")
    case True
    then show ?thesis using step by simp
  next
    case False
    then have "m1 < k" "k \<le> 12" using Suc.prems by simp_all
    then have "days_before_month y m1 + int (days_in_month y m1) \<le> days_before_month y k"
      by (rule Suc.IH)
    then show ?thesis using step by simp
  qed
qed

lemma day_of_year_bounds:
  assumes "valid_date d"
  shows "1 \<le> days_before_month (year d) (month d) + int (day d)"
    and "days_before_month (year d) (month d) + int (day d)
           \<le> (if is_leap (year d) then 366 else 365)"
proof -
  have v: "1 \<le> month d" "month d \<le> 12" "1 \<le> day d"
    "day d \<le> days_in_month (year d) (month d)"
    using assms by (auto simp: valid_date_def)
  then have m: "month d = 1 \<or> month d = 2 \<or> month d = 3 \<or> month d = 4 \<or> month d = 5
      \<or> month d = 6 \<or> month d = 7 \<or> month d = 8 \<or> month d = 9 \<or> month d = 10
      \<or> month d = 11 \<or> month d = 12"
    by arith
  from m v(3) show "1 \<le> days_before_month (year d) (month d) + int (day d)"
    by (elim disjE) (simp_all add: days_before_month_def)
  from m v(4) show "days_before_month (year d) (month d) + int (day d)
      \<le> (if is_leap (year d) then 366 else 365)"
    by (elim disjE) (auto simp: days_before_month_def days_in_month_def split: if_splits)
qed

lemma days_before_year_mono:
  assumes "1 \<le> y1" and "y1 < y2"
  shows "days_before_year y1 + (if is_leap y1 then 366 else 365) \<le> days_before_year y2"
  using assms(2)
proof (induction y2)
  case 0
  then show ?case by simp
next
  case (Suc k)
  show ?case
  proof (cases "y1 = k")
    case True
    then show ?thesis using days_before_year_Suc [OF assms(1)] by simp
  next
    case False
    then have lt: "y1 < k" using Suc.prems by simp
    then have "1 \<le> k" using assms(1) by simp
    from days_before_year_Suc [OF this] Suc.IH [OF lt] show ?thesis
      by (simp split: if_splits)
  qed
qed

lemma toordinal_less:
  assumes "valid_date d1" and "valid_date d2"
    and "year d1 < year d2 \<or> year d1 = year d2 \<and>
           (month d1 < month d2 \<or> month d1 = month d2 \<and> day d1 < day d2)"
  shows "toordinal d1 < toordinal d2"
proof -
  have v1: "1 \<le> year d1" "1 \<le> month d1" "day d1 \<le> days_in_month (year d1) (month d1)"
    and v2: "month d2 \<le> 12" "1 \<le> day d2"
    using assms(1,2) by (auto simp: valid_date_def)
  from assms(3) consider (y) "year d1 < year d2"
    | (m) "year d1 = year d2" "month d1 < month d2"
    | (d) "year d1 = year d2" "month d1 = month d2" "day d1 < day d2"
    by blast
  then show ?thesis
  proof cases
    case y
    from days_before_year_mono [OF v1(1) y] day_of_year_bounds(2) [OF assms(1)]
      day_of_year_bounds(1) [OF assms(2)]
    show ?thesis by (simp add: toordinal_def split: if_splits)
  next
    case m
    from days_before_month_mono [OF v1(2) m(2) v2(1), of "year d1"] v1(3) v2(2) m(1)
    show ?thesis by (simp add: toordinal_def)
  next
    case d
    then show ?thesis by (simp add: toordinal_def)
  qed
qed

text \<open>The ordinals of two dates are ordered as the triples of year, month and day.\<close>

lemma toordinal_le_lex:
  assumes "valid_date d1" and "valid_date d2"
  shows "toordinal d1 \<le> toordinal d2 \<longleftrightarrow>
         year d1 < year d2 \<or> year d1 = year d2 \<and>
           (month d1 < month d2 \<or> month d1 = month d2 \<and> day d1 \<le> day d2)"
proof
  assume le: "toordinal d1 \<le> toordinal d2"
  show "year d1 < year d2 \<or> year d1 = year d2 \<and>
      (month d1 < month d2 \<or> month d1 = month d2 \<and> day d1 \<le> day d2)"
  proof (rule ccontr)
    assume "\<not> ?thesis"
    then have "year d2 < year d1 \<or> year d2 = year d1 \<and>
        (month d2 < month d1 \<or> month d2 = month d1 \<and> day d2 < day d1)"
      by auto
    from toordinal_less [OF assms(2,1) this] le show False by simp
  qed
next
  assume lex: "year d1 < year d2 \<or> year d1 = year d2 \<and>
      (month d1 < month d2 \<or> month d1 = month d2 \<and> day d1 \<le> day d2)"
  show "toordinal d1 \<le> toordinal d2"
  proof (cases "year d1 = year d2 \<and> month d1 = month d2 \<and> day d1 = day d2")
    case True
    then show ?thesis by (simp add: toordinal_def)
  next
    case False
    with lex have "year d1 < year d2 \<or> year d1 = year d2 \<and>
        (month d1 < month d2 \<or> month d1 = month d2 \<and> day d1 < day d2)"
      by auto
    from toordinal_less [OF assms this] show ?thesis by simp
  qed
qed

text \<open>
  For dates from the year 1000 on, the texts \<^verbatim>\<open>strftime\<close> prints are ordered as the dates.
\<close>

lemma strftime_le_iff:
  assumes "valid_date d1" and "1000 \<le> year d1" and "valid_date d2" and "1000 \<le> year d2"
  shows "strftime d1 \<le> strftime d2 \<longleftrightarrow> toordinal d1 \<le> toordinal d2"
  using strftime_le_lex [OF assms] toordinal_le_lex [OF assms(1,3)] by simp

section \<open>Properties of \<^verbatim>\<open>migrate_incomplete_tasks\<close>\<close>

subsection \<open>The rollover loop\<close>

lemma strptime_valid: "strptime s = Inr d \<Longrightarrow> valid_date d"
  by (auto simp: strptime_def split: option.splits if_splits)

lemma rollover_due_ok:
  assumes "task_row_ok r"
  shows "rollover_due today r = Inr (r ! 5 = ''pending'' \<and> r ! 7 \<le> today)"
  using assms by (simp add: task_row_ok_def rollover_due_def and_then_def item_def)

lemma migrate_row_ok:
  assumes "task_row_ok r" and "py_int (r ! 8) = Inr n" and "strptime (r ! 7) = Inr d"
  shows "migrate_row today r =
           (if r ! 5 = ''pending'' \<and> r ! 7 \<le> today
            then Inr (r[8 := py_str (n + 1), 7 := strftime (next_day d)], True)
            else Inr (r, False))"
proof -
  have len: "length r = 10" and last: "\<not> (year d = 9999 \<and> month d = 12 \<and> day d = 31)"
    using assms by (auto simp: task_row_ok_def)
  show ?thesis
    using assms(2,3) len last
    by (auto simp: migrate_row_def rollover_due_ok [OF assms(1)] and_then_def item_def
        set_item_def add_one_day_def)
qed

lemma task_row_ok_fields:
  assumes "task_row_ok r"
  obtains n d where "py_int (r ! 8) = Inr n" and "strptime (r ! 7) = Inr d"
    and "1000 \<le> year d" and "\<not> (year d = 9999 \<and> month d = 12 \<and> day d = 31)"
    and "length r = 10" and "strftime d = r ! 7"
  using assms by (auto simp: task_row_ok_def split: sum.splits)

text \<open>
  On a well-formed row, and with \<open>today\<close> the text of the day \<open>t\<close>, the test of the loop on
  the two texts is the condition on the two dates.
\<close>

lemma text_due_is_date_due:
  assumes "task_row_ok r" and "valid_date t" and "1000 \<le> year t"
  shows "(r ! 5 = ''pending'' \<and> r ! 7 \<le> strftime t) = due_by_date t r"
proof -
  from assms(1) obtain n d where d: "strptime (r ! 7) = Inr d" "1000 \<le> year d"
    "strftime d = r ! 7"
    by (rule task_row_ok_fields)
  have "valid_date d" using d(1) by (rule strptime_valid)
  from strftime_le_iff [OF this d(2) assms(2,3)] d(1,3)
  show ?thesis by (simp add: due_by_date_def)
qed

lemma migrate_loop_ok:
  assumes "\<forall>r \<in> set data. task_row_ok r"
  shows "\<exists>data'. migrate_loop today data =
            Inr (data', int (length (filter (\<lambda>r. r ! 5 = ''pending'' \<and> r ! 7 \<le> today) data))) \<and>
          length data' = length data \<and>
          (\<forall>i < length data. migrate_row today (data ! i) =
              Inr (data' ! i, data ! i ! 5 = ''pending'' \<and> data ! i ! 7 \<le> today))"
  using assms
proof (induction data)
  case Nil
  then show ?case by simp
next
  case (Cons r rest)
  let ?due = "\<lambda>r. r ! 5 = ''pending'' \<and> r ! 7 \<le> today"
  from Cons.prems have ok: "task_row_ok r" by simp
  then obtain n d where f: "py_int (r ! 8) = Inr n" "strptime (r ! 7) = Inr d"
    by (rule task_row_ok_fields)
  define r' where "r' = (if ?due r then r[8 := py_str (n + 1), 7 := strftime (next_day d)] else r)"
  have row: "migrate_row today r = Inr (r', ?due r)"
    using migrate_row_ok [OF ok f, of today] by (simp add: r'_def)
  from Cons obtain rest' where rest':
    "migrate_loop today rest = Inr (rest', int (length (filter ?due rest)))"
    "length rest' = length rest"
    "\<forall>i < length rest. migrate_row today (rest ! i) = Inr (rest' ! i, ?due (rest ! i))"
    by auto
  have "migrate_loop today (r # rest) = Inr (r' # rest', int (length (filter ?due (r # rest))))"
    using row rest'(1) by simp
  moreover have "length (r' # rest') = length (r # rest)" using rest'(2) by simp
  moreover have "\<forall>i < length (r # rest). migrate_row today ((r # rest) ! i) =
      Inr ((r' # rest') ! i, ?due ((r # rest) ! i))"
  proof (intro allI impI)
    fix i assume "i < length (r # rest)"
    then show "migrate_row today ((r # rest) ! i) = Inr ((r' # rest') ! i, ?due ((r # rest) ! i))"
      using row rest'(3) by (cases i) simp_all
  qed
  ultimately show ?case by blast
qed

lemma update_progress_log_tasks:
  "tasks_csv (fst (update_progress_log tool today m s)) = tasks_csv s"
  by (simp add: update_progress_log_def Let_def split: list.splits sum.splits prod.splits)

lemma migrate_incomplete_tasks_tasks:
  assumes "migrate_loop today (tl (tasks_csv s)) = Inr (data, n)"
  shows "tasks_csv (fst (migrate_incomplete_tasks tool today log_today s))
           = take 1 (tasks_csv s) @ data"
proof -
  let ?s1 = "s\<lparr>tasks_csv := take 1 (tasks_csv s) @ data\<rparr>"
  have "tasks_csv (fst (update_progress_log tool log_today n ?s1)) = tasks_csv ?s1"
    by (rule update_progress_log_tasks)
  then show ?thesis
    using assms
    by (cases "update_progress_log tool log_today n ?s1")
      (auto simp: migrate_incomplete_tasks_def Let_def print_def split: sum.splits)
qed

subsection \<open>The task table after a run\<close>

lemma nth_tl_rows: "0 < i \<Longrightarrow> i < length rows \<Longrightarrow> tl rows ! (i - 1) = rows ! i"
  by (cases rows) (auto simp: nth_Cons')

lemma nth_take1_append:
  "0 < i \<Longrightarrow> rows \<noteq> [] \<Longrightarrow> (take 1 rows @ data) ! i = data ! (i - 1)"
  by (cases rows) (auto simp: nth_append)

text \<open>
  Row \<open>i\<close> of the table a run writes, in terms of the test the loop makes on the texts
  of the two dates.
\<close>

lemma migrate_incomplete_tasks_rows:
  assumes "\<forall>r \<in> set (tl (tasks_csv s)). task_row_ok r"
    and "0 < i" and "i < length (tasks_csv s)"
    and "s' = fst (migrate_incomplete_tasks tool today log_today s)"
    and "r = tasks_csv s ! i" and "r' = tasks_csv s' ! i"
  shows "length (tasks_csv s') = length (tasks_csv s) \<and>
         take 1 (tasks_csv s') = take 1 (tasks_csv s) \<and>
         (if r ! 5 = ''pending'' \<and> r ! 7 \<le> today
          then \<exists>n d. py_int (r ! 8) = Inr n \<and> strptime (r ! 7) = Inr d \<and>
                 r' = r[8 := py_str (n + 1), 7 := strftime (next_day d)] \<and>
                 py_int (r' ! 8) = Inr (n + 1) \<and>
                 strptime (r' ! 7) = Inr (next_day d) \<and>
                 toordinal (next_day d) = toordinal d + 1
          else r' = r)"
proof -
  let ?rows = "tasks_csv s"
  let ?due = "\<lambda>r. r ! 5 = ''pending'' \<and> r ! 7 \<le> today"
  from migrate_loop_ok [OF assms(1), of today] obtain data where data:
    "migrate_loop today (tl ?rows) = Inr (data, int (length (filter ?due (tl ?rows))))"
    "length data = length (tl ?rows)"
    "\<forall>j < length (tl ?rows). migrate_row today (tl ?rows ! j) = Inr (data ! j, ?due (tl ?rows ! j))"
    by blast
  have tasks: "tasks_csv s' = take 1 ?rows @ data"
    using migrate_incomplete_tasks_tasks [OF data(1)] assms(4) by simp
  have ne: "?rows \<noteq> []" using assms(3) by auto
  have len: "length (tasks_csv s') = length ?rows"
    using tasks data(2) ne by (cases ?rows) simp_all
  have hd: "take 1 (tasks_csv s') = take 1 ?rows"
    using tasks ne by (cases ?rows) simp_all
  have r: "tl ?rows ! (i - 1) = r" using nth_tl_rows [OF assms(2,3)] assms(5) by simp
  have r': "data ! (i - 1) = r'"
    using nth_take1_append [OF assms(2) ne, of data] tasks assms(6) by simp
  have i: "i - 1 < length (tl ?rows)" using assms(2,3) by simp
  have ok: "task_row_ok r" using assms(1) i r nth_mem by fastforce
  from ok obtain n d where f: "py_int (r ! 8) = Inr n" "strptime (r ! 7) = Inr d"
    "1000 \<le> year d" "\<not> (year d = 9999 \<and> month d = 12 \<and> day d = 31)" "length r = 10"
    by (rule task_row_ok_fields)
  have row: "migrate_row today r = Inr (r', ?due r)" using data(3) i r r' by fastforce
  show ?thesis
  proof (cases "?due r")
    case True
    have new: "r' = r[8 := py_str (n + 1), 7 := strftime (next_day d)]"
      using row True migrate_row_ok [OF ok f(1,2), of today] by simp
    have v: "valid_date d" using f(2) by (rule strptime_valid)
    have v': "valid_date (next_day d)" using v f(4) by (rule valid_date_next_day)
    have y': "1000 \<le> year (next_day d)" using f(3) by (simp add: next_day_def)
    have "py_int (r' ! 8) = Inr (n + 1)" using new f(5) by (simp add: py_int_py_str)
    moreover have "strptime (r' ! 7) = Inr (next_day d)"
      using new f(5) strptime_strftime [OF v' y'] by simp
    moreover have "toordinal (next_day d) = toordinal d + 1" using v by (rule toordinal_next_day)
    ultimately show ?thesis using len hd True f(1,2) new by auto
  next
    case False
    then have "r' = r" using row migrate_row_ok [OF ok f(1,2), of today] by auto
    then show ?thesis using len hd False by auto
  qed
qed

text \<open>
  Claim C1. One run of the rollover job on a task table of well-formed rows, on the day
  \<open>t\<close>, whose text is \<open>today\<close>. Row \<open>i\<close> of the table after the run, the header apart: when
  the status is \<^verbatim>\<open>pending\<close> and the due date is the day \<open>t\<close> or an earlier day, the rollover
  count read back is the old count plus one, the due date read back is the day after the
  old one (its ordinal is one more, however far in the past it lies), and no other field
  differs; otherwise (another status, or a due date after \<open>t\<close>) the row is the old row.
  The table keeps its length and its header. This holds of the table the run writes,
  whatever the progress log step does afterwards.
\<close>

theorem migrate_incomplete_tasks_rollover:
  assumes "\<forall>r \<in> set (tl (tasks_csv s)). task_row_ok r"
    and "valid_date t" and "1000 \<le> year t" and "today = strftime t"
    and "0 < i" and "i < length (tasks_csv s)"
    and "s' = fst (migrate_incomplete_tasks tool today log_today s)"
    and "r = tasks_csv s ! i" and "r' = tasks_csv s' ! i"
  shows "length (tasks_csv s') = length (tasks_csv s) \<and>
         take 1 (tasks_csv s') = take 1 (tasks_csv s) \<and>
         (\<exists>n d. py_int (r ! 8) = Inr n \<and> strptime (r ! 7) = Inr d \<and>
            (if r ! 5 = ''pending'' \<and> toordinal d \<le> toordinal t
             then r' = r[8 := py_str (n + 1), 7 := strftime (next_day d)] \<and>
                  py_int (r' ! 8) = Inr (n + 1) \<and>
                  strptime (r' ! 7) = Inr (next_day d) \<and>
                  toordinal (next_day d) = toordinal d + 1
             else r' = r))"
proof -
  note rows = migrate_incomplete_tasks_rows [OF assms(1,5,6,7,8,9)]
  have "r \<in> set (tl (tasks_csv s))"
    using nth_tl_rows [OF assms(5,6)] assms(5,6,8) nth_mem [of "i - 1" "tl (tasks_csv s)"]
    by simp
  with assms(1) have ok: "task_row_ok r" by blast
  then obtain n d where f: "py_int (r ! 8) = Inr n" "strptime (r ! 7) = Inr d"
    "1000 \<le> year d" "strftime d = r ! 7"
    by (rule task_row_ok_fields)
  have due: "(r ! 5 = ''pending'' \<and> r ! 7 \<le> today)
      = (r ! 5 = ''pending'' \<and> toordinal d \<le> toordinal t)"
    using text_due_is_date_due [OF ok assms(2,3)] f(2) assms(4) by (simp add: due_by_date_def)
  show ?thesis
  proof (cases "r ! 5 = ''pending'' \<and> toordinal d \<le> toordinal t")
    case True
    with due have "r ! 5 = ''pending'' \<and> r ! 7 \<le> today" by simp
    with rows f(1,2) have "r' = r[8 := py_str (n + 1), 7 := strftime (next_day d)] \<and>
        py_int (r' ! 8) = Inr (n + 1) \<and> strptime (r' ! 7) = Inr (next_day d) \<and>
        toordinal (next_day d) = toordinal d + 1"
      by auto
    with rows f(1,2) True show ?thesis by auto
  next
    case False
    with due have "\<not> (r ! 5 = ''pending'' \<and> r ! 7 \<le> today)" by simp
    with rows have "r' = r" by auto
    with rows f(1,2) False show ?thesis by auto
  qed
qed

subsection \<open>The example task file\<close>

lemma py_int_2: "py_int ''2'' = Inr 2"
  by (simp add: py_int_def strip_with_def int_space_def int_unsigned_def is_decimal_def
      digit_val_def)

lemma strptime_example:
  "strptime ''2024-01-01'' = Inr \<lparr>year = 2024, month = 1, day = 1\<rparr>"
  by (simp add: strptime_def is_decimal_def digit_val_def nonzero_digit_def valid_date_def
      days_in_month_def)

lemma strftime_example:
  "strftime (next_day \<lparr>year = 2024, month = 1, day = 1\<rparr>) = ''2024-01-02''"
  by (simp add: strftime_def next_day_def days_in_month_def pad2_def digit_char_def
      str_nat_four_digits)

lemma example_rows_ok: "\<forall>r \<in> set (tl (tasks_csv example_state)). task_row_ok r"
  by (simp add: example_state_def example_tasks_def task_row_ok_def
      py_int_def strip_with_def int_space_def int_unsigned_def is_decimal_def digit_val_def
      strptime_def nonzero_digit_def valid_date_def days_in_month_def
      strftime_def pad2_def digit_char_def str_nat_four_digits)

lemma example_row2:
  "tasks_csv example_state ! 2 = [''5'', ''Solve'', ''Two problems'', ''DSA'', ''1'', ''pending'',
       ''2023-12-30'', ''2024-01-01'', ''2'', ''Core Learning Sessions'']"
  by (simp add: example_state_def example_tasks_def)

lemma example_today:
  "valid_date \<lparr>year = 2024, month = 1, day = 2\<rparr>"
  "1000 \<le> year \<lparr>year = 2024, month = 1, day = 2\<rparr>"
  "''2024-01-02'' = strftime \<lparr>year = 2024, month = 1, day = 2\<rparr>"
  by (simp_all add: valid_date_def days_in_month_def strftime_def pad2_def digit_char_def
      str_nat_four_digits)

lemma example_due_count:
  "length (filter (due_by_date \<lparr>year = 2024, month = 1, day = 2\<rparr>)
     (tl (tasks_csv example_state))) = 1"
  by (simp add: example_state_def example_tasks_def due_by_date_def strptime_def is_decimal_def
      digit_val_def nonzero_digit_def valid_date_def days_in_month_def toordinal_def
      days_before_year_def days_before_month_def is_leap_def)

theorem migrate_incomplete_tasks_rollover_witness:
  "tasks_csv (fst (migrate_incomplete_tasks example_tool ''2024-01-02'' ''2024-01-02''
       example_state)) ! 2 =
     [''5'', ''Solve'', ''Two problems'', ''DSA'', ''1'', ''pending'',
      ''2023-12-30'', ''2024-01-02'', ''3'', ''Core Learning Sessions'']"
proof -
  let ?s' = "fst (migrate_incomplete_tasks example_tool ''2024-01-02'' ''2024-01-02''
       example_state)"
  let ?r = "tasks_csv example_state ! 2"
  let ?t = "\<lparr>year = 2024, month = 1, day = 2\<rparr>"
  let ?d = "\<lparr>year = 2024, month = 1, day = 1\<rparr>"
  have 2: "0 < (2::nat)" by simp
  have 3: "2 < length (tasks_csv example_state)"
    by (simp add: example_state_def example_tasks_def)
  have pending: "?r ! 5 = ''pending''" by (simp add: example_row2)
  have ord: "toordinal ?d \<le> toordinal ?t" by (simp add: toordinal_def)
  have n: "py_int (?r ! 8) = Inr 2" by (simp add: example_row2 py_int_2)
  have d: "strptime (?r ! 7) = Inr ?d" by (simp add: example_row2 strptime_example)
  from migrate_incomplete_tasks_rollover [OF example_rows_ok example_today 2 3 refl refl refl,
      of example_tool "''2024-01-02''"]
  obtain n' d' where a: "py_int (?r ! 8) = Inr n'" "strptime (?r ! 7) = Inr d'"
    and b: "if ?r ! 5 = ''pending'' \<and> toordinal d' \<le> toordinal ?t
       then tasks_csv ?s' ! 2 = ?r[8 := py_str (n' + 1), 7 := strftime (next_day d')] \<and>
            py_int (tasks_csv ?s' ! 2 ! 8) = Inr (n' + 1) \<and>
            strptime (tasks_csv ?s' ! 2 ! 7) = Inr (next_day d') \<and>
            toordinal (next_day d') = toordinal d' + 1
       else tasks_csv ?s' ! 2 = ?r"
    by blast
  from a n d have "n' = 2" "d' = ?d" by simp_all
  with b pending ord have "tasks_csv ?s' ! 2 = ?r[8 := py_str 3, 7 := strftime (next_day ?d)]"
    by simp
  then show ?thesis using strftime_example by (simp add: example_row2 py_str_digit)
qed

subsection \<open>What the rollover job returns and reports\<close>

lemma update_progress_log_result:
  assumes "update_progress_log tool today m s = (s1, Inr w)"
  shows "stdout s1 = stdout s \<and>
         (progress_csv s1 = progress_csv s \<or>
          (\<exists>c p. progress_csv s1 = progress_csv s @
             [[today, py_str c, py_str p, py_str m, score_text c p, []]]))"
  using assms
  by (fastforce simp: update_progress_log_def Let_def split: list.splits sum.splits if_splits)

lemma update_progress_log_example:
  "update_progress_log example_tool today m s =
     (s\<lparr>progress_csv := progress_csv s @
          [[today, ''1'', ''1'', py_str m, score_text 1 1, []]]\<rparr>, Inr PyNone)"
  by (simp add: update_progress_log_def example_tool_def nl_def strip_def strip_with_def
      isspace_def int_space_def parse_counts_def py_int_def int_unsigned_def is_decimal_def
      digit_val_def py_str_digit)

text \<open>
  What a run that ends normally returns, prints and logs, in terms of the test the loop
  makes on the texts of the two dates.
\<close>

lemma migrate_incomplete_tasks_report:
  assumes "\<forall>r \<in> set (tl (tasks_csv s)). task_row_ok r"
    and "migrate_incomplete_tasks tool today log_today s = (s', Inr v)"
    and "count = int (length (filter (\<lambda>r. r ! 5 = ''pending'' \<and> r ! 7 \<le> today)
                                (tl (tasks_csv s))))"
  shows "v = PyNone \<and>
         stdout s' = stdout s @ [''Migrated '' @ py_str count @ '' incomplete tasks''] \<and>
         (progress_csv s' = progress_csv s \<or>
          (\<exists>row. progress_csv s' = progress_csv s @ [row] \<and> row ! 0 = log_today \<and>
                 row ! 3 = py_str count))"
proof -
  from migrate_loop_ok [OF assms(1), of today] assms(3) obtain data where
    data: "migrate_loop today (tl (tasks_csv s)) = Inr (data, count)"
    by blast
  let ?s1 = "s\<lparr>tasks_csv := take 1 (tasks_csv s) @ data\<rparr>"
  obtain s2 res where log: "update_progress_log tool log_today count ?s1 = (s2, res)"
    by (cases "update_progress_log tool log_today count ?s1")
  with data assms(2) obtain w where w: "res = Inr w"
    and s': "s' = print (''Migrated '' @ py_str count @ '' incomplete tasks'') s2"
    and v: "v = PyNone"
    by (auto simp: migrate_incomplete_tasks_def Let_def split: sum.splits)
  from update_progress_log_result [OF log [unfolded w]]
  show ?thesis using s' v by (auto simp: print_def)
qed

text \<open>
  Claim C2, as amended. On a task table of well-formed rows, on the day \<open>t\<close>, whose text
  is \<open>today\<close>, a run that ends normally returns \<^verbatim>\<open>None\<close>. The number of records that were
  pending and due on \<open>t\<close> or an earlier day when the run started is what it prints in its
  last line, and what it hands to the progress log, which stores it as the fourth field
  of the row it appends, when it appends one.
\<close>

theorem migrate_incomplete_tasks_reports_count:
  assumes "\<forall>r \<in> set (tl (tasks_csv s)). task_row_ok r"
    and "valid_date t" and "1000 \<le> year t" and "today = strftime t"
    and "migrate_incomplete_tasks tool today log_today s = (s', Inr v)"
    and "count = int (length (filter (due_by_date t) (tl (tasks_csv s))))"
  shows "v = PyNone \<and>
         stdout s' = stdout s @ [''Migrated '' @ py_str count @ '' incomplete tasks''] \<and>
         (progress_csv s' = progress_csv s \<or>
          (\<exists>row. progress_csv s' = progress_csv s @ [row] \<and> row ! 0 = log_today \<and>
                 row ! 3 = py_str count))"
proof -
  have "filter (\<lambda>r. r ! 5 = ''pending'' \<and> r ! 7 \<le> today) (tl (tasks_csv s))
      = filter (due_by_date t) (tl (tasks_csv s))"
    using assms(1,4) text_due_is_date_due [OF _ assms(2,3)] by (intro filter_cong) auto
  with assms(6) have "count = int (length (filter (\<lambda>r. r ! 5 = ''pending'' \<and> r ! 7 \<le> today)
      (tl (tasks_csv s))))"
    by simp
  from migrate_incomplete_tasks_report [OF assms(1,5) this] show ?thesis .
qed

text \<open>
  Claim C2 as stated fails: on the example task file one record is pending and due on
  2024-01-02, and the run of that day returns \<^verbatim>\<open>None\<close>, not the count 1.
\<close>

theorem migrate_incomplete_tasks_returns_none:
  "snd (migrate_incomplete_tasks example_tool ''2024-01-02'' ''2024-01-02'' example_state)
     = Inr PyNone \<and>
   length (filter (due_by_date \<lparr>year = 2024, month = 1, day = 2\<rparr>)
     (tl (tasks_csv example_state))) = 1 \<and>
   snd (migrate_incomplete_tasks example_tool ''2024-01-02'' ''2024-01-02'' example_state)
     \<noteq> Inr (PyInt (int (length (filter (due_by_date \<lparr>year = 2024, month = 1, day = 2\<rparr>)
           (tl (tasks_csv example_state))))))"
proof -
  from migrate_loop_ok [OF example_rows_ok, of "''2024-01-02''"] obtain data n where
    "migrate_loop ''2024-01-02'' (tl (tasks_csv example_state)) = Inr (data, n)"
    by blast
  then have "snd (migrate_incomplete_tasks example_tool ''2024-01-02'' ''2024-01-02''
      example_state) = Inr PyNone"
    by (simp add: migrate_incomplete_tasks_def Let_def update_progress_log_example)
  then show ?thesis using example_due_count by simp
qed

theorem migrate_incomplete_tasks_reports_count_witness:
  "stdout (fst (migrate_incomplete_tasks example_tool ''2024-01-02'' ''2024-01-02''
     example_state)) = [''Migrated 1 incomplete tasks'']"
proof -
  let ?run = "migrate_incomplete_tasks example_tool ''2024-01-02'' ''2024-01-02'' example_state"
  from migrate_loop_ok [OF example_rows_ok, of "''2024-01-02''"] obtain data n where
    "migrate_loop ''2024-01-02'' (tl (tasks_csv example_state)) = Inr (data, n)"
    by blast
  then have "snd ?run = Inr PyNone"
    by (simp add: migrate_incomplete_tasks_def Let_def update_progress_log_example)
  then have run: "?run = (fst ?run, Inr PyNone)" by (metis prod.collapse)
  have count: "1 = int (length (filter (due_by_date \<lparr>year = 2024, month = 1, day = 2\<rparr>)
      (tl (tasks_csv example_state))))"
    using example_due_count by simp
  from migrate_incomplete_tasks_reports_count [OF example_rows_ok example_today run count]
  have "stdout (fst ?run) = stdout example_state @ [''Migrated '' @ py_str 1 @ '' incomplete tasks'']"
    by simp
  moreover have "stdout example_state = []" by (simp add: example_state_def)
  ultimately show ?thesis by (simp add: py_str_digit)
qed

section \<open>Properties of \<^verbatim>\<open>_update_progress_log\<close>\<close>

text \<open>
  Claim C7, as amended. When the answer of the tool has a line of column names and one
  line with two integers, progress aggregation appends exactly one row, dated \<open>today\<close>,
  and ends normally; run twice on the same day it leaves two rows with that date at the
  end of the log. With an answer of fewer than two lines, whatever the tool and the
  state, it ends normally and changes nothing.
\<close>

theorem update_progress_log_appends:
  assumes "split_on nl (strip (tool s ''tasks'' (progress_query today))) = [h1, c1]"
    and "parse_counts c1 = Inr (a1, b1)"
    and "s1 = fst (update_progress_log tool today m1 s)"
    and "split_on nl (strip (tool s1 ''tasks'' (progress_query today))) = [h2, c2]"
    and "parse_counts c2 = Inr (a2, b2)"
    and "s2 = fst (update_progress_log tool today m2 s1)"
  shows "snd (update_progress_log tool today m1 s) = Inr PyNone \<and>
         snd (update_progress_log tool today m2 s1) = Inr PyNone \<and>
         (\<exists>row1 row2.
            progress_csv s1 = progress_csv s @ [row1] \<and>
            progress_csv s2 = progress_csv s @ [row1, row2] \<and>
            row1 ! 0 = today \<and> row2 ! 0 = today) \<and>
         (\<forall>tool0 s0 m0.
            length (split_on nl (strip (tool0 s0 ''tasks'' (progress_query today)))) < 2 \<longrightarrow>
            update_progress_log tool0 today m0 s0 = (s0, Inr PyNone))"
proof -
  have 1: "update_progress_log tool today m1 s =
      (s\<lparr>progress_csv := progress_csv s @
           [[today, py_str a1, py_str b1, py_str m1, score_text a1 b1, []]]\<rparr>, Inr PyNone)"
    using assms(1,2) by (simp add: update_progress_log_def)
  have 2: "update_progress_log tool today m2 s1 =
      (s1\<lparr>progress_csv := progress_csv s1 @
           [[today, py_str a2, py_str b2, py_str m2, score_text a2 b2, []]]\<rparr>, Inr PyNone)"
    using assms(4,5) by (simp add: update_progress_log_def)
  have 3: "\<forall>tool0 s0 m0.
      length (split_on nl (strip (tool0 s0 ''tasks'' (progress_query today)))) < 2 \<longrightarrow>
      update_progress_log tool0 today m0 s0 = (s0, Inr PyNone)"
    by (simp add: update_progress_log_def)
  have "snd (update_progress_log tool today m1 s) = Inr PyNone \<and>
      snd (update_progress_log tool today m2 s1) = Inr PyNone \<and>
      (\<exists>row1 row2.
         progress_csv s1 = progress_csv s @ [row1] \<and>
         progress_csv s2 = progress_csv s @ [row1, row2] \<and>
         row1 ! 0 = today \<and> row2 ! 0 = today)"
    using 1 2 assms(3,6) by simp
  with 3 show ?thesis by blast
qed

lemma example_tool_answer:
  "split_on nl (strip (example_tool s name sql)) = [''completed,pending'', ''1,1'']"
  by (simp add: example_tool_def nl_def strip_def strip_with_def isspace_def int_space_def)

lemma parse_counts_example: "parse_counts ''1,1'' = Inr (1, 1)"
  by (simp add: parse_counts_def py_int_def strip_with_def int_space_def int_unsigned_def
      is_decimal_def digit_val_def)

theorem update_progress_log_appends_witness:
  "\<exists>row1 row2.
     progress_csv (fst (update_progress_log example_tool ''2024-01-02'' 0
        (fst (update_progress_log example_tool ''2024-01-02'' 1 example_state))))
       = progress_csv example_state @ [row1, row2] \<and>
     row1 ! 0 = ''2024-01-02'' \<and> row2 ! 0 = ''2024-01-02''"
  using update_progress_log_appends [where tool = example_tool and s = example_state
      and today = "''2024-01-02''" and ?m1.0 = 1 and ?m2.0 = 0,
      OF example_tool_answer parse_counts_example refl
      example_tool_answer parse_counts_example refl]
  by blast

text \<open>
  Claim C7 as stated fails: when the statement fails and the tool answers with one line
  of error text, the invocation ends normally and appends no row.
\<close>

theorem update_progress_log_appends_nothing:
  "update_progress_log failing_tool ''2024-01-02'' 0 example_state = (example_state, Inr PyNone)"
  by (simp add: update_progress_log_def failing_tool_def nl_def strip_def strip_with_def
      isspace_def int_space_def)

section \<open>Properties of \<^verbatim>\<open>get_today_schedule\<close>\<close>

lemma schedule_query_nth: "schedule_query today_name ! 9 = CHR ''S''"
  by (simp add: schedule_query_def)

lemma tasks_query_nth: "tasks_query task_ids ! 9 = CHR '' ''"
  by (simp add: tasks_query_def)

lemma schedule_query_not_tasks_query: "schedule_query today_name \<noteq> tasks_query task_ids"
proof
  assume "schedule_query today_name = tasks_query task_ids"
  then have "schedule_query today_name ! 9 = tasks_query task_ids ! 9" by simp
  then show False by (simp add: schedule_query_nth tasks_query_nth)
qed

lemma map_of_Text:
  "map_of (map (\<lambda>(k, v). (k, Text v)) kvs) key = map_option Text (map_of kvs key)"
  by (induction kvs) auto

lemma schedule_block_calls:
  "set (snd (schedule_block tool query headers line)) \<subseteq> {(''tasks'', query)}"
  by (simp add: schedule_block_def Let_def split: option.splits)

lemma schedule_block_tasks:
  assumes "schedule_block tool query headers line = (Inr b, calls)"
  shows "calls = (if has_task_ids b then [(''tasks'', query)] else []) \<and>
         map_of b ''tasks'' =
           Some (Rows (if has_task_ids b then parse_rows (tool ''tasks'' query) else []))"
  using assms
  by (auto simp: schedule_block_def Let_def has_task_ids_def update_conv' map_of_Text
      split: option.splits if_splits)

lemma schedule_loop_calls:
  "set (snd (schedule_loop tool query headers lines)) \<subseteq> {(''tasks'', query)}"
proof (induction lines)
  case Nil
  then show ?case by simp
next
  case (Cons line rest)
  obtain r calls where b: "schedule_block tool query headers line = (r, calls)"
    by (cases "schedule_block tool query headers line")
  obtain r' calls' where l: "schedule_loop tool query headers rest = (r', calls')"
    by (cases "schedule_loop tool query headers rest")
  from schedule_block_calls [of tool query headers line] b
  have "set calls \<subseteq> {(''tasks'', query)}" by simp
  moreover from Cons l have "set calls' \<subseteq> {(''tasks'', query)}" by simp
  ultimately show ?case using b l by (auto split: sum.splits)
qed

lemma schedule_loop_tasks:
  assumes "schedule_loop tool query headers lines = (Inr schedule, calls)"
  shows "calls = replicate (length (filter has_task_ids schedule)) (''tasks'', query) \<and>
         (\<forall>b \<in> set schedule. map_of b ''tasks'' =
            Some (Rows (if has_task_ids b then parse_rows (tool ''tasks'' query) else [])))"
  using assms
proof (induction lines arbitrary: schedule calls)
  case Nil
  then show ?case by simp
next
  case (Cons line rest)
  obtain r c1 where b: "schedule_block tool query headers line = (r, c1)"
    by (cases "schedule_block tool query headers line")
  obtain r' c2 where l: "schedule_loop tool query headers rest = (r', c2)"
    by (cases "schedule_loop tool query headers rest")
  from Cons.prems b l obtain blk sch where
    r: "r = Inr blk" "r' = Inr sch" "schedule = blk # sch" "calls = c1 @ c2"
    by (auto split: sum.splits)
  note blk = schedule_block_tasks [OF b [unfolded r(1)]]
  note sch = Cons.IH [OF l [unfolded r(2)]]
  show ?case using blk sch r(3,4) by (auto simp: replicate_append_same)
qed

lemma schedule_block_cong:
  assumes "tool1 ''tasks'' query = tool2 ''tasks'' query"
  shows "schedule_block tool1 query headers line = schedule_block tool2 query headers line"
  using assms by (auto simp: schedule_block_def Let_def split: option.splits)

lemma schedule_loop_cong:
  assumes "tool1 ''tasks'' query = tool2 ''tasks'' query"
  shows "schedule_loop tool1 query headers lines = schedule_loop tool2 query headers lines"
proof (induction lines)
  case Nil
  then show ?case by simp
next
  case (Cons line rest)
  show ?case
    unfolding schedule_loop.simps Cons.IH schedule_block_cong [of tool1 query tool2, OF assms]
    by (rule refl)
qed

lemma get_today_schedule_cong:
  assumes "tool2 s ''schedule'' (schedule_query today_name)
             = tool s ''schedule'' (schedule_query today_name)"
    and "tool2 s ''tasks'' (schedule_query today_name)
           = tool s ''tasks'' (schedule_query today_name)"
  shows "get_today_schedule tool2 today_name s = get_today_schedule tool today_name s"
  unfolding get_today_schedule_def Let_def assms(1)
    schedule_loop_cong [of "tool2 s" "schedule_query today_name" "tool s", OF assms(2)]
  by (rule refl)

lemma get_today_schedule_tasks:
  assumes "get_today_schedule tool today_name s = (Inr schedule, calls)"
  shows "calls = (''schedule'', schedule_query today_name) #
                 replicate (length (filter has_task_ids schedule))
                   (''tasks'', schedule_query today_name) \<and>
         (\<forall>b \<in> set schedule. map_of b ''tasks'' =
            Some (Rows (if has_task_ids b
                        then parse_rows (tool s ''tasks'' (schedule_query today_name))
                        else [])))"
proof -
  let ?query = "schedule_query today_name"
  let ?lines = "split_on nl (strip (tool s ''schedule'' ?query))"
  show ?thesis
  proof (cases "length ?lines > 1")
    case True
    obtain r c where
      loop: "schedule_loop (tool s) ?query (split_on CHR '','' (hd ?lines)) (tl ?lines) = (r, c)"
      by (cases "schedule_loop (tool s) ?query (split_on CHR '','' (hd ?lines)) (tl ?lines)")
    with True assms have "r = Inr schedule" "calls = (''schedule'', ?query) # c"
      by (simp_all add: get_today_schedule_def Let_def)
    with schedule_loop_tasks [of "tool s" ?query _ _ schedule c] loop show ?thesis by simp
  next
    case False
    with assms have "schedule = []" "calls = [(''schedule'', ?query)]"
      by (simp_all add: get_today_schedule_def Let_def)
    then show ?thesis by simp
  qed
qed

text \<open>
  Claim C8. In a schedule that \<^verbatim>\<open>get_today_schedule\<close> returns, the tasks of every block
  that names task ids are the rows of the tool's answer to the statement that selected
  the blocks, \<open>schedule_query\<close>, sent for the file \<^verbatim>\<open>tasks\<close>. The calls of the tool are the
  first one for the schedule and one with the same statement for each such block. That
  statement is never \<open>tasks_query\<close>, whatever the task ids, and the result is the same for
  every tool that gives the same two answers to it: it does not depend on what the
  tool would answer to \<open>tasks_query\<close>.
\<close>

theorem get_today_schedule_outer_query:
  assumes "get_today_schedule tool today_name s = (Inr schedule, calls)"
  shows "(\<forall>b \<in> set schedule. has_task_ids b \<longrightarrow>
            map_of b ''tasks'' =
              Some (Rows (parse_rows (tool s ''tasks'' (schedule_query today_name))))) \<and>
         calls = (''schedule'', schedule_query today_name) #
                 replicate (length (filter has_task_ids schedule))
                   (''tasks'', schedule_query today_name) \<and>
         (\<forall>task_ids. tasks_query task_ids \<noteq> schedule_query today_name) \<and>
         (\<forall>tool2. tool2 s ''schedule'' (schedule_query today_name)
                    = tool s ''schedule'' (schedule_query today_name) \<and>
                  tool2 s ''tasks'' (schedule_query today_name)
                    = tool s ''tasks'' (schedule_query today_name) \<longrightarrow>
                  get_today_schedule tool2 today_name s = get_today_schedule tool today_name s)"
proof -
  note t = get_today_schedule_tasks [OF assms]
  have 1: "\<forall>b \<in> set schedule. has_task_ids b \<longrightarrow>
            map_of b ''tasks'' =
              Some (Rows (parse_rows (tool s ''tasks'' (schedule_query today_name))))"
  proof (intro ballI impI)
    fix b assume b: "b \<in> set schedule" "has_task_ids b"
    from t b(1) have "map_of b ''tasks'' =
        Some (Rows (if has_task_ids b
                    then parse_rows (tool s ''tasks'' (schedule_query today_name)) else []))"
      by blast
    with b(2) show "map_of b ''tasks'' =
        Some (Rows (parse_rows (tool s ''tasks'' (schedule_query today_name))))"
      by simp
  qed
  have 2: "calls = (''schedule'', schedule_query today_name) #
                 replicate (length (filter has_task_ids schedule))
                   (''tasks'', schedule_query today_name)"
    using t by blast
  have 3: "\<forall>task_ids. tasks_query task_ids \<noteq> schedule_query today_name"
    using schedule_query_not_tasks_query [of today_name] by (intro allI) (rule not_sym)
  have 4: "\<forall>tool2. tool2 s ''schedule'' (schedule_query today_name)
                    = tool s ''schedule'' (schedule_query today_name) \<and>
                  tool2 s ''tasks'' (schedule_query today_name)
                    = tool s ''tasks'' (schedule_query today_name) \<longrightarrow>
                  get_today_schedule tool2 today_name s = get_today_schedule tool today_name s"
    using get_today_schedule_cong [of _ s today_name tool] by blast
  from 1 2 3 4 show ?thesis by (intro conjI)
qed

lemma schedule_tool_lines:
  "split_on nl (strip (schedule_tool s ''schedule'' sql)) =
     [''block_id,start_time,end_time,block_name,block_type,task_ids'',
      ''2,06:50,10:00,Core Learning Sessions,learning,5;6'']"
  by (simp add: schedule_tool_def nl_def strip_def strip_with_def isspace_def int_space_def)

lemma schedule_tool_rows: "parse_rows (schedule_tool s ''tasks'' sql) = []"
  by (simp add: parse_rows_def schedule_tool_def nl_def strip_def strip_with_def isspace_def
      int_space_def)

lemma schedule_tool_block:
  "schedule_block (schedule_tool s) query
     [''block_id'', ''start_time'', ''end_time'', ''block_name'', ''block_type'', ''task_ids'']
     ''2,06:50,10:00,Core Learning Sessions,learning,5;6'' =
     (Inr [(''block_id'', Text ''2''), (''start_time'', Text ''06:50''),
           (''end_time'', Text ''10:00''), (''block_name'', Text ''Core Learning Sessions''),
           (''block_type'', Text ''learning''), (''task_ids'', Text ''5;6''),
           (''tasks'', Rows [])],
      [(''tasks'', query)])"
  by (simp add: schedule_block_def schedule_tool_rows dict_zip_def Let_def)

lemma schedule_tool_run:
  "get_today_schedule schedule_tool ''Monday'' example_state =
     (Inr [[(''block_id'', Text ''2''), (''start_time'', Text ''06:50''),
            (''end_time'', Text ''10:00''), (''block_name'', Text ''Core Learning Sessions''),
            (''block_type'', Text ''learning''), (''task_ids'', Text ''5;6''),
            (''tasks'', Rows [])]],
      [(''schedule'', schedule_query ''Monday''), (''tasks'', schedule_query ''Monday'')])"
  unfolding get_today_schedule_def Let_def schedule_tool_lines
  by (simp add: schedule_tool_block)

theorem get_today_schedule_outer_query_witness:
  "snd (get_today_schedule schedule_tool ''Monday'' example_state) =
     [(''schedule'', schedule_query ''Monday''), (''tasks'', schedule_query ''Monday'')] \<and>
   tasks_query [''5'', ''6''] \<noteq> schedule_query ''Monday''"
proof -
  from get_today_schedule_outer_query [OF schedule_tool_run]
  have "tasks_query [''5'', ''6''] \<noteq> schedule_query ''Monday''" by blast
  then show ?thesis by (simp add: schedule_tool_run)
qed

section \<open>Properties of the productivity score\<close>

subsection \<open>Rounding\<close>

lemma round_half_even_error: "\<bar>of_int (round_half_even x) - x\<bar> \<le> 1 / 2"
proof -
  have "of_int \<lfloor>x\<rfloor> \<le> x" "x < of_int \<lfloor>x\<rfloor> + 1" by linarith+
  then show ?thesis by (auto simp: round_half_even_def Let_def)
qed

lemma round_half_even_nonneg: "0 \<le> x \<Longrightarrow> 0 \<le> round_half_even x"
  by (auto simp: round_half_even_def Let_def)

lemma round_half_even_le:
  assumes "x < of_int n + 1 / 2"
  shows "round_half_even x \<le> n"
proof -
  have "of_int (round_half_even x) - x \<le> 1 / 2"
    using round_half_even_error [of x] by linarith
  with assms have "(of_int (round_half_even x) :: rat) < of_int n + 1" by linarith
  then have "(of_int (round_half_even x) :: rat) < of_int (n + 1)" by simp
  then have "round_half_even x < n + 1" by (simp only: of_int_less_iff)
  then show ?thesis by simp
qed

subsection \<open>The exponent of a rational\<close>

lemma float_exponent_le:
  assumes "x \<noteq> 0"
  shows "2 powi float_exponent x \<le> \<bar>x\<bar>"
proof -
  obtain a b where q: "quotient_of \<bar>x\<bar> = (a, b)" by (cases "quotient_of \<bar>x\<bar>")
  have b: "0 < b" using q by (rule quotient_of_denom_pos)
  have x: "\<bar>x\<bar> = of_int a / of_int b" using q by (rule quotient_of_div)
  have "0 < \<bar>x\<bar>" using assms by simp
  then have a: "0 < a" using x b by (simp add: zero_less_divide_iff)
  define e where "e = bitlen a - bitlen b"
  show ?thesis
  proof (cases "2 powi e \<le> \<bar>x\<bar>")
    case True
    then show ?thesis by (simp add: float_exponent_def q e_def)
  next
    case False
    then have fe: "float_exponent x = e - 1" by (simp add: float_exponent_def q e_def)
    from bitlen_bounds [OF a] have la: "2 ^ nat (bitlen a - 1) \<le> a" by simp
    from bitlen_bounds [OF b] have lb: "b < 2 ^ nat (bitlen b)" by simp
    have pa: "1 \<le> bitlen a" using a by (simp add: bitlen_def floorlog_def)
    have pb: "0 \<le> bitlen b" by (rule bitlen_nonneg)
    have "e - 1 = (bitlen a - 1) - bitlen b" by (simp add: e_def)
    then have "(2::rat) powi (e - 1) = 2 powi ((bitlen a - 1) - bitlen b)" by (rule arg_cong)
    also have "\<dots> = 2 powi (bitlen a - 1) / 2 powi bitlen b"
      by (rule power_int_diff) simp
    also have "\<dots> = 2 ^ nat (bitlen a - 1) / 2 ^ nat (bitlen b)"
      using pa pb by (simp add: power_int_def)
    also have "\<dots> \<le> of_int a / of_int b"
    proof (rule frac_le)
      show "(0::rat) \<le> of_int a" using a by simp
      have "(of_int (2 ^ nat (bitlen a - 1)) :: rat) \<le> of_int a"
        using la by (simp only: of_int_le_iff)
      then show "(2::rat) ^ nat (bitlen a - 1) \<le> of_int a" by simp
      show "(0::rat) < of_int b" using b by simp
      have "(of_int b :: rat) \<le> of_int (2 ^ nat (bitlen b))"
        using lb by (simp only: of_int_le_iff)
      then show "(of_int b :: rat) \<le> 2 ^ nat (bitlen b)" by simp
    qed
    finally show ?thesis using fe x by simp
  qed
qed

subsection \<open>Rounding to a double\<close>

lemma to_double_error: "\<bar>to_double x - x\<bar> \<le> \<bar>x\<bar> / 2 ^ 53"
proof (cases "x = 0")
  case True
  then show ?thesis by (simp add: to_double_def)
next
  case False
  define e where "e = float_exponent x"
  define u :: rat where "u = 2 powi (e - 52)"
  have u: "0 < u" by (simp add: u_def)
  have td: "to_double x = of_int (round_half_even (x / u)) * u"
    using False by (simp add: to_double_def Let_def e_def u_def)
  have "\<bar>of_int (round_half_even (x / u)) - x / u\<bar> \<le> 1 / 2"
    by (rule round_half_even_error)
  then have "\<bar>of_int (round_half_even (x / u)) - x / u\<bar> * u \<le> 1 / 2 * u"
    using u by (simp only: mult_le_cancel_right_pos)
  moreover have "\<bar>of_int (round_half_even (x / u)) - x / u\<bar> * u
      = \<bar>of_int (round_half_even (x / u)) * u - x\<bar>"
  proof -
    have "\<bar>of_int (round_half_even (x / u)) - x / u\<bar> * u
        = \<bar>(of_int (round_half_even (x / u)) - x / u) * u\<bar>"
      using u by (simp add: abs_mult)
    also have "(of_int (round_half_even (x / u)) - x / u) * u
        = of_int (round_half_even (x / u)) * u - x"
      using u by (simp add: left_diff_distrib)
    finally show ?thesis .
  qed
  ultimately have err: "\<bar>to_double x - x\<bar> \<le> u / 2" by (simp add: td)
  have "(2::rat) powi (e - 52) = 2 powi e / 2 powi 52" by (rule power_int_diff) simp
  then have "u / 2 = 2 powi e / 2 ^ 53" by (simp add: u_def)
  also have "\<dots> \<le> \<bar>x\<bar> / 2 ^ 53"
    using float_exponent_le [OF False] by (simp add: e_def divide_right_mono)
  finally show ?thesis using err by linarith
qed

lemma to_double_nonneg:
  assumes "0 \<le> x"
  shows "0 \<le> to_double x"
proof (cases "x = 0")
  case True
  then show ?thesis by (simp add: to_double_def)
next
  case False
  have "0 \<le> x / 2 powi (float_exponent x - 52)" using assms by simp
  then have "0 \<le> round_half_even (x / 2 powi (float_exponent x - 52))"
    by (rule round_half_even_nonneg)
  then show ?thesis using False by (simp add: to_double_def Let_def)
qed

subsection \<open>The productivity score\<close>

lemma score_hundredths_bounds:
  assumes "0 \<le> c" and "0 \<le> p" and "0 < c + p"
  shows "0 \<le> score_hundredths c p \<and> score_hundredths c p \<le> 10000 \<and>
         \<bar>rat_of_int (score_hundredths c p) / 100 - rat_of_int c / rat_of_int (c + p) * 100\<bar>
           \<le> 1 / 200 + 300 / 2 ^ 53"
proof -
  define q :: rat where "q = of_int c / of_int (c + p)"
  define y where "y = to_double q"
  define z where "z = to_double (y * 100)"
  define k where "k = round_half_even (z * 100)"
  define eps :: rat where "eps = 1 / 2 ^ 53"
  have eps: "0 < eps" "eps \<le> 1 / 100000" by (simp_all add: eps_def)
  have k: "score_hundredths c p = k"
    using assms(3)
    by (simp add: score_hundredths_def Let_def round2_hundredths_def float_mul_def
        int_truediv_def k_def z_def y_def q_def)
  have q0: "0 \<le> q" using assms by (simp add: q_def)
  have q1: "q \<le> 1" using assms by (simp add: q_def)
  have y0: "0 \<le> y" unfolding y_def using q0 by (rule to_double_nonneg)
  have "\<bar>y - q\<bar> \<le> \<bar>q\<bar> / 2 ^ 53" unfolding y_def by (rule to_double_error)
  moreover have "\<bar>q\<bar> / 2 ^ 53 \<le> 1 / 2 ^ 53" using q0 q1 by (intro divide_right_mono) simp_all
  ultimately have yq: "\<bar>y - q\<bar> \<le> eps" unfolding eps_def by linarith
  have y2: "y \<le> 2" using yq q1 eps by linarith
  have y100: "0 \<le> y * 100" using y0 by simp
  have z0: "0 \<le> z" unfolding z_def using y100 by (rule to_double_nonneg)
  have "\<bar>z - y * 100\<bar> \<le> \<bar>y * 100\<bar> / 2 ^ 53" unfolding z_def by (rule to_double_error)
  moreover have "\<bar>y * 100\<bar> / 2 ^ 53 \<le> 200 / 2 ^ 53"
    using y0 y2 by (intro divide_right_mono) simp_all
  moreover have "(200::rat) / 2 ^ 53 = 200 * eps" by (simp add: eps_def)
  ultimately have zy: "\<bar>z - y * 100\<bar> \<le> 200 * eps" by linarith
  have zq: "\<bar>z - q * 100\<bar> \<le> 300 * eps" using zy yq by linarith
  have kz: "\<bar>of_int k - z * 100\<bar> \<le> 1 / 2" unfolding k_def by (rule round_half_even_error)
  have z100: "0 \<le> z * 100" using z0 by simp
  have k0: "0 \<le> k" unfolding k_def using z100 by (rule round_half_even_nonneg)
  have "z * 100 < of_int 10000 + 1 / 2" using zq q1 eps by simp
  then have k1: "k \<le> 10000" unfolding k_def by (rule round_half_even_le)
  have "\<bar>of_int k / 100 - q * 100\<bar> \<le> 1 / 200 + 300 * eps" using kz zq by linarith
  moreover have "300 * eps = 300 / 2 ^ 53" by (simp add: eps_def)
  ultimately have "\<bar>of_int k / 100 - q * 100\<bar> \<le> 1 / 200 + 300 / 2 ^ 53" by simp
  then show ?thesis using k k0 k1 unfolding q_def by blast
qed

text \<open>
  Claim C4, as amended. For counts that are not negative, the productivity score is 0
  when \<open>completed + pending = 0\<close>; otherwise it is
  \<open>completed / (completed + pending) * 100\<close> computed in double precision and rounded to
  two decimal places: a whole number of hundredths no further than \<open>0.005 + 2\<^sup>-\<^sup>4\<^sup>4\<close> from
  the exact quotient. In both cases it lies between 0 and 100.
\<close>

theorem productivity_score_rounded:
  assumes "0 \<le> completed" and "0 \<le> pending"
  shows "(completed + pending = 0 \<longrightarrow> productivity_score completed pending = 0) \<and>
         (0 < completed + pending \<longrightarrow>
            \<bar>productivity_score completed pending
               - of_int completed / of_int (completed + pending) * 100\<bar>
              \<le> 1 / 200 + 1 / 2 ^ 44) \<and>
         (\<exists>k. productivity_score completed pending = of_int k / 100) \<and>
         0 \<le> productivity_score completed pending \<and>
         productivity_score completed pending \<le> 100"
proof (cases "0 < completed + pending")
  case True
  note b = score_hundredths_bounds [OF assms True]
  have "(300::rat) / 2 ^ 53 \<le> 1 / 2 ^ 44" by simp
  with b have "\<bar>productivity_score completed pending
      - of_int completed / of_int (completed + pending) * 100\<bar> \<le> 1 / 200 + 1 / 2 ^ 44"
    unfolding productivity_score_def by linarith
  moreover have "0 \<le> productivity_score completed pending"
    using b by (simp add: productivity_score_def)
  moreover have "productivity_score completed pending \<le> 100"
  proof -
    from b have "(of_int (score_hundredths completed pending) :: rat) \<le> of_int 10000"
      by (simp only: of_int_le_iff)
    then show ?thesis by (simp add: productivity_score_def)
  qed
  ultimately show ?thesis using True by (auto simp: productivity_score_def)
next
  case False
  then have "productivity_score completed pending = 0"
    by (simp add: productivity_score_def score_hundredths_def)
  then show ?thesis using False assms by (auto intro: exI [of _ 0])
qed

text \<open>
  Claim C4 as stated fails: with one task completed and two pending the score is 33.33,
  which is not \<open>1 / 3 * 100\<close>; the log gets the text \<^verbatim>\<open>33.33\<close>.
\<close>

theorem productivity_score_one_third:
  "productivity_score 1 2 = 3333 / 100 \<and>
   productivity_score 1 2 \<noteq> of_int 1 / of_int (1 + 2) * 100 \<and>
   score_text 1 2 = ''33.33''"
  by code_simp

theorem productivity_score_rounded_witness:
  "\<bar>productivity_score 1 2 - of_int 1 / of_int (1 + 2) * 100\<bar> \<le> 1 / 200 + 1 / 2 ^ 44 \<and>
   0 \<le> productivity_score 1 2 \<and> productivity_score 1 2 \<le> 100 \<and>
   productivity_score 0 0 = 0"
  using productivity_score_rounded [of 1 2] productivity_score_rounded [of 0 0] by simp

end
